theory Spec2Isabelle
  imports Main "HOL-Library.AList"
begin

section \<open>Python values, errors and string primitives\<close>

text \<open>
  The scrapers are Python methods over dictionaries of lists. An exception is a value
  of type \<open>error\<close>, and a method that may raise returns \<open>error + 'a\<close>.
  A dictionary is an association list in insertion order with unique keys
  (\<open>AList.update\<close> overwrites in place or appends, as a Python \<open>dict\<close> does).
\<close>

datatype error =
    IndexError
  | KeyError
  | TypeError
  | AttributeError
  | UnboundLocalError
  | ValueError_conversion
  | ValueError_country_code

text \<open>
  A Python float is a double: a finite value \<open>m * 2 ^ e\<close>, an infinity with its sign, or
  not-a-number. The model never computes with one; parsing a float is a parameter where it
  is needed.
\<close>

datatype pyfloat = Finite int int | Infinity bool | NaN

datatype pyval =
    PyNone
  | PyStr string
  | PyInt int
  | PyFloat pyfloat
  | PyList "pyval list"
  | PyDict "(string \<times> pyval) list"

type_synonym 'v dict = "(string \<times> 'v) list"

text \<open>\<open>str(n)\<close> for a non-negative integer: its decimal digits.\<close>

definition digit_char :: "nat \<Rightarrow> char" where
  "digit_char d = ''0123456789'' ! d"

function str_nat :: "nat \<Rightarrow> string" where
  "str_nat n = (if n < 10 then [digit_char n] else str_nat (n div 10) @ [digit_char (n mod 10)])"
  by pat_completeness auto
termination
  by (relation "measure id") auto

declare str_nat.simps [simp del]

text \<open>
  Strings are ASCII byte strings. \<open>is_space\<close> is what \<^verbatim>\<open>str.strip\<close> and the regex
  class \<^verbatim>\<open>\s\<close> take for whitespace, \<open>py_lower\<close> is \<^verbatim>\<open>str.lower\<close>, \<open>py_in\<close> is the
  substring test \<^verbatim>\<open>sub in s\<close>, and \<open>py_replace\<close> is \<^verbatim>\<open>str.replace\<close> for a non-empty
  \<open>old\<close> (non-overlapping occurrences, left to right).
\<close>

definition is_space :: "char \<Rightarrow> bool" where
  "is_space c = (c \<in> set [CHR 0x09, CHR 0x0A, CHR 0x0B, CHR 0x0C, CHR 0x0D,
                           CHR 0x1C, CHR 0x1D, CHR 0x1E, CHR 0x1F, CHR '' ''])"

definition py_strip :: "string \<Rightarrow> string" where
  "py_strip s = rev (dropWhile is_space (rev (dropWhile is_space s)))"

definition py_lower_char :: "char \<Rightarrow> char" where
  "py_lower_char c =
     (case map_of (zip ''ABCDEFGHIJKLMNOPQRSTUVWXYZ'' ''abcdefghijklmnopqrstuvwxyz'') c of
        Some l \<Rightarrow> l
      | None \<Rightarrow> c)"

definition py_lower :: "string \<Rightarrow> string" where
  "py_lower s = map py_lower_char s"

fun py_in :: "string \<Rightarrow> string \<Rightarrow> bool" where
  "py_in sub [] = (sub = [])"
| "py_in sub (c # cs) = (take (length sub) (c # cs) = sub \<or> py_in sub cs)"

fun replace_from :: "string \<Rightarrow> string \<Rightarrow> nat \<Rightarrow> string \<Rightarrow> string" where
  "replace_from old new skip [] = []"
| "replace_from old new skip (c # cs) =
     (if 0 < skip then replace_from old new (skip - 1) cs
      else if take (length old) (c # cs) = old
        then new @ replace_from old new (length old - 1) cs
        else c # replace_from old new 0 cs)"

definition py_replace :: "string \<Rightarrow> string \<Rightarrow> string \<Rightarrow> string" where
  "py_replace old new s = replace_from old new 0 s"

text \<open>
  \<open>split_on c s\<close> is \<^verbatim>\<open>s.split(c)\<close> for a one-character separator, \<open>py_join\<close> is
  \<^verbatim>\<open>sep.join(xs)\<close>, and \<open>py_int\<close> is the built-in \<^verbatim>\<open>int\<close> on an ASCII string, as CPython's
  \<^verbatim>\<open>PyLong_FromString\<close> reads it in base 10: the whitespace it skips on both sides is the C
  locale's (space, \<^verbatim>\<open>\t\<close>, \<^verbatim>\<open>\n\<close>, \<^verbatim>\<open>\v\<close>, \<^verbatim>\<open>\f\<close>, \<^verbatim>\<open>\r\<close>; the separators 0x1C to 0x1F that
  \<^verbatim>\<open>str.strip\<close> removes are not skipped), one sign may come first, single underscores may
  separate digits, and a string of more than \<open>max_str_digits\<close> digits (the default of
  \<^verbatim>\<open>sys.get_int_max_str_digits()\<close>) is refused. \<open>None\<close> stands for \<^verbatim>\<open>ValueError\<close>.
\<close>

fun split_on :: "char \<Rightarrow> string \<Rightarrow> string list" where
  "split_on c [] = [[]]"
| "split_on c (x # xs) =
     (if x = c then [] # split_on c xs
      else (case split_on c xs of
              w # ws \<Rightarrow> (x # w) # ws
            | [] \<Rightarrow> [[x]]))"

fun py_join :: "string \<Rightarrow> string list \<Rightarrow> string" where
  "py_join sep [] = []"
| "py_join sep [x] = x"
| "py_join sep (x # y # zs) = x @ sep @ py_join sep (y # zs)"

definition digit_val :: "char \<Rightarrow> nat option" where
  "digit_val c = map_of (zip ''0123456789'' [0, 1, 2, 3, 4, 5, 6, 7, 8, 9]) c"

fun parse_digits :: "bool \<Rightarrow> nat \<Rightarrow> string \<Rightarrow> nat option" where
  "parse_digits after_digit acc [] = (if after_digit then Some acc else None)"
| "parse_digits after_digit acc (c # cs) =
     (case digit_val c of
        Some d \<Rightarrow> parse_digits True (10 * acc + d) cs
      | None \<Rightarrow>
          if c = CHR ''_'' \<and> after_digit then parse_digits False acc cs else None)"

definition is_int_space :: "char \<Rightarrow> bool" where
  "is_int_space c = (c \<in> set [CHR 0x09, CHR 0x0A, CHR 0x0B, CHR 0x0C, CHR 0x0D, CHR '' ''])"

definition int_strip :: "string \<Rightarrow> string" where
  "int_strip s = rev (dropWhile is_int_space (rev (dropWhile is_int_space s)))"

definition max_str_digits :: nat where
  "max_str_digits = 4300"

definition py_int :: "string \<Rightarrow> int option" where
  "py_int s =
     (case int_strip s of
        [] \<Rightarrow> None
      | c # cs \<Rightarrow>
          (let digits = (if c = CHR ''-'' \<or> c = CHR ''+'' then cs else c # cs)
           in if max_str_digits < length (filter (\<lambda>d. digit_val d \<noteq> None) digits) then None
              else if c = CHR ''-'' then map_option (\<lambda>n. - int n) (parse_digits False 0 digits)
              else map_option int (parse_digits False 0 digits)))"

section \<open>Regular expressions\<close>

text \<open>
  The regular-expression engine is a parameter of the model: \<open>findall pattern text\<close> stands
  for \<^verbatim>\<open>re.findall(pattern, text)\<close> with a pattern of at most one capture group, so that
  each match is a string. \<open>findall_literal\<close> is \<^verbatim>\<open>re.findall\<close> for a pattern without
  metacharacters: the non-overlapping occurrences of the pattern, left to right.
\<close>

type_synonym regex_findall = "string \<Rightarrow> string \<Rightarrow> string list"

fun findall_from :: "string \<Rightarrow> nat \<Rightarrow> string \<Rightarrow> string list" where
  "findall_from p skip [] = (if p = [] then [[]] else [])"
| "findall_from p skip (c # cs) =
     (if 0 < skip then findall_from p (skip - 1) cs
      else if take (length p) (c # cs) = p then p # findall_from p (length p - 1) cs
      else findall_from p 0 cs)"

definition findall_literal :: regex_findall where
  "findall_literal pattern text = findall_from pattern 0 text"

section \<open>Row/Table Parser: header de-duplication\<close>

text \<open>
  \<^verbatim>\<open>add_suffix_to_repeat_headers\<close> (fbref_scraper.py): \<open>header_count\<close> maps a header to
  the number of times it was seen; a repeat increments the count and appends the header
  followed by \<open>count - 1\<close>.
\<close>

fun add_suffix_loop :: "(string \<rightharpoonup> nat) \<Rightarrow> string list \<Rightarrow> string list \<Rightarrow> string list" where
  "add_suffix_loop header_count result [] = result"
| "add_suffix_loop header_count result (header # headers) =
     (case header_count header of
        Some c \<Rightarrow>
          (let c' = c + 1
           in add_suffix_loop (header_count(header \<mapsto> c')) (result @ [header @ str_nat (c' - 1)]) headers)
      | None \<Rightarrow>
          add_suffix_loop (header_count(header \<mapsto> 1)) (result @ [header]) headers)"

definition add_suffix_to_repeat_headers :: "string list \<Rightarrow> string list" where
  "add_suffix_to_repeat_headers headers = add_suffix_loop Map.empty [] headers"

text \<open>The name that position \<open>i\<close> of a header list receives: the header itself when it has
  not occurred before, and the header followed by the number of earlier occurrences otherwise.\<close>

definition suffixed_header :: "string list \<Rightarrow> string list \<Rightarrow> nat \<Rightarrow> string" where
  "suffixed_header seen headers i =
     (let k = count_list (seen @ take i headers) (headers ! i)
      in if k = 0 then headers ! i else headers ! i @ str_nat k)"

section \<open>Row/Table Parser\<close>

text \<open>
  A table is what BeautifulSoup hands to the scraper: its caption text, if it has a caption,
  and its \<^verbatim>\<open>tr\<close> elements in document order. Of a row the scraper reads the \<^verbatim>\<open>class\<close>
  attribute, the stripped text of each \<^verbatim>\<open>th\<close>/\<^verbatim>\<open>td\<close> cell and the \<^verbatim>\<open>href\<close> attribute of
  each anchor (\<open>None\<close> for an anchor without one).
\<close>

definition format_field :: "string \<Rightarrow> string" where
  "format_field field = py_replace '' '' ''_'' (py_lower (py_strip field))"

record row =
  row_class :: "string list option"
  cells :: "string list"
  hrefs :: "string option list"

record table =
  caption :: "string option"
  rows :: "row list"

text \<open>\<^verbatim>\<open>parse_table_rows\<close>, \<^verbatim>\<open>parse_all_row_data\<close>, \<^verbatim>\<open>detect_totals_rows\<close>,
  \<^verbatim>\<open>convert_row_data_to_dict\<close> and \<^verbatim>\<open>parse_table_data\<close> (fbref_scraper.py).\<close>

definition parse_table_rows :: "table \<Rightarrow> row list" where
  "parse_table_rows tbl =
     filter (\<lambda>r. case row_class r of None \<Rightarrow> True | Some cls \<Rightarrow> ''spacer'' \<notin> set cls) (rows tbl)"

definition parse_row_data :: "row \<Rightarrow> string list" where
  "parse_row_data clean_row = cells clean_row"

definition parse_all_row_data :: "row list \<Rightarrow> string list list" where
  "parse_all_row_data clean_rows = map parse_row_data clean_rows"

fun detect_totals_loop :: "string list list \<Rightarrow> nat \<Rightarrow> error + nat" where
  "detect_totals_loop [] totals_rows = Inr totals_rows"
| "detect_totals_loop (r # rs) totals_rows =
     (case r of
        [] \<Rightarrow> Inl IndexError
      | check # _ \<Rightarrow>
          if py_in ''Total'' check then detect_totals_loop rs (totals_rows + 1)
          else Inr totals_rows)"

definition detect_totals_rows :: "string list list \<Rightarrow> error + nat" where
  "detect_totals_rows all_row_data = detect_totals_loop (rev all_row_data) 0"

text \<open>
  \<open>zip_star rs\<close> is \<^verbatim>\<open>zip(*rs)\<close>: the columns of the rows, as many as the shortest row has
  cells. \<open>dict_of_pairs\<close> assigns the pairs to an empty dictionary in order, and
  \<open>drop_last_rows n xs\<close> is the slice \<^verbatim>\<open>xs[:(-n)]\<close> taken when \<open>n > 0\<close>.
\<close>

definition zip_star :: "'a list list \<Rightarrow> 'a list list" where
  "zip_star rs =
     (case rs of
        [] \<Rightarrow> []
      | r # rest \<Rightarrow> map (\<lambda>j. map (\<lambda>x. x ! j) rs) [0..<foldr min (map length rest) (length r)])"

definition dict_of_pairs :: "(string \<times> 'v) list \<Rightarrow> 'v dict" where
  "dict_of_pairs kvs = foldl (\<lambda>d (k, v). AList.update k v d) [] kvs"

definition convert_row_data_to_dict :: "string list list \<Rightarrow> error + string list dict" where
  "convert_row_data_to_dict all_row_data =
     (case all_row_data of
        [] \<Rightarrow> Inl IndexError
      | headers # row_data \<Rightarrow>
          (let clean_headers = add_suffix_to_repeat_headers (map format_field headers)
           in Inr (dict_of_pairs (zip clean_headers (zip_star row_data)))))"

definition drop_last_rows :: "int \<Rightarrow> 'a list \<Rightarrow> 'a list" where
  "drop_last_rows drop_rows xs = (if 0 < drop_rows then take (length xs - nat drop_rows) xs else xs)"

definition parse_table_data :: "table \<Rightarrow> bool \<Rightarrow> int \<Rightarrow> bool \<Rightarrow> error + string list dict" where
  "parse_table_data tbl skip_row drop_rows exclude_totals =
     (let clean_rows = parse_table_rows tbl;
          all_row_data = parse_all_row_data clean_rows;
          all_row_data = (if skip_row then drop 1 all_row_data else all_row_data)
      in if exclude_totals
         then (case detect_totals_rows all_row_data of
                 Inl e \<Rightarrow> Inl e
               | Inr totals_rows \<Rightarrow>
                   convert_row_data_to_dict (drop_last_rows (int totals_rows) all_row_data))
         else convert_row_data_to_dict (drop_last_rows drop_rows all_row_data))"

text \<open>Notions used to state the properties of the parser.\<close>

definition totals_row :: "string list \<Rightarrow> bool" where
  "totals_row r = (case r of [] \<Rightarrow> False | check # _ \<Rightarrow> py_in ''Total'' check)"

definition all_row_data_of :: "table \<Rightarrow> bool \<Rightarrow> string list list" where
  "all_row_data_of tbl skip_row =
     (let all_row_data = parse_all_row_data (parse_table_rows tbl)
      in if skip_row then drop 1 all_row_data else all_row_data)"

definition mk_row :: "string list \<Rightarrow> row" where
  "mk_row cs = \<lparr>row_class = None, cells = cs, hrefs = []\<rparr>"

definition totals_example :: table where
  "totals_example = \<lparr>caption = None, rows = map mk_row
     [[''Player'', ''Gls''], [''Kane'', ''3''], [''Total'', ''3''], [''Total2'', ''3'']]\<rparr>"

text \<open>
  \<^verbatim>\<open>parse_stat_table_rows\<close> and \<^verbatim>\<open>parse_stat_table_data\<close> (fbref_stats_scraper.py): the
  special form of the parser for statistical tables. It keeps the header row and the data
  rows with as many cells as the header, and checks the row lengths again after the
  trailing rows are dropped.
\<close>

definition stat_cleaner_rows :: "row \<Rightarrow> row list \<Rightarrow> row list" where
  "stat_cleaner_rows header_row data_rows =
     (let num_headers = length (cells header_row)
      in header_row # filter (\<lambda>row. length (cells row) = num_headers) data_rows)"

definition parse_stat_table_rows :: "table \<Rightarrow> bool \<Rightarrow> error + row list" where
  "parse_stat_table_rows stat_table skip_row =
     (let clean_rows = parse_table_rows stat_table
      in if skip_row
         then (case clean_rows of
                 _ # header_row # data_rows \<Rightarrow> Inr (stat_cleaner_rows header_row data_rows)
               | _ \<Rightarrow> Inl IndexError)
         else (case clean_rows of
                 header_row # data_rows \<Rightarrow> Inr (stat_cleaner_rows header_row data_rows)
               | [] \<Rightarrow> Inl IndexError))"







section \<open>URL-Embedded-ID Extractor\<close>

text \<open>
  \<^verbatim>\<open>parse_pattern_from_url\<close> (fbref_scraper.py). The variable \<^verbatim>\<open>match\<close> is assigned in
  the loop only, so reading it after a loop over no pattern raises \<^verbatim>\<open>UnboundLocalError\<close>.
\<close>

fun parse_pattern_loop :: "regex_findall \<Rightarrow> string list \<Rightarrow> string \<Rightarrow> string list option \<Rightarrow> error + string option" where
  "parse_pattern_loop findall [] url last_match =
     (case last_match of
        None \<Rightarrow> Inl UnboundLocalError
      | Some match \<Rightarrow> (if length match = 0 then Inr None else Inr None))"
| "parse_pattern_loop findall (pattern # patterns) url last_match =
     (let match = findall pattern url
      in if length match > 0 then Inr (Some (match ! 0))
         else parse_pattern_loop findall patterns url (Some match))"

definition parse_pattern_from_url :: "regex_findall \<Rightarrow> string list \<Rightarrow> string \<Rightarrow> error + string option" where
  "parse_pattern_from_url findall patterns url = parse_pattern_loop findall patterns url None"

text \<open>The hrefs of a row that the comprehension keeps: those that are present and not empty.\<close>

definition row_hrefs :: "row \<Rightarrow> string list" where
  "row_hrefs r = concat (map (\<lambda>h. case h of None \<Rightarrow> [] | Some u \<Rightarrow> if u = [] then [] else [u]) (hrefs r))"

text \<open>The loop over the hrefs of one row: the first truthy item ends it.\<close>

fun item_of_hrefs :: "regex_findall \<Rightarrow> string list \<Rightarrow> string list \<Rightarrow> error + string option" where
  "item_of_hrefs findall patterns [] = Inr None"
| "item_of_hrefs findall patterns (href # more_hrefs) =
     (case parse_pattern_from_url findall patterns href of
        Inl e \<Rightarrow> Inl e
      | Inr item \<Rightarrow>
          (case item of
             Some i \<Rightarrow> if i \<noteq> [] then Inr (Some i) else item_of_hrefs findall patterns more_hrefs
           | None \<Rightarrow> item_of_hrefs findall patterns more_hrefs))"

text \<open>
  \<^verbatim>\<open>get_all_items_from_table_urls\<close> (fbref_scraper.py) and
  \<^verbatim>\<open>get_all_items_from_stat_table_urls\<close> (fbref_stats_scraper.py) run the same loop, the first
  over the clean rows of the table and the second over the rows kept by
  \<^verbatim>\<open>parse_stat_table_rows\<close>; both scan the header row as well.
\<close>

fun items_of_rows :: "regex_findall \<Rightarrow> string list \<Rightarrow> row list \<Rightarrow> string list \<Rightarrow> error + string list" where
  "items_of_rows findall patterns [] items = Inr items"
| "items_of_rows findall patterns (r # rs) items =
     (case item_of_hrefs findall patterns (row_hrefs r) of
        Inl e \<Rightarrow> Inl e
      | Inr None \<Rightarrow> items_of_rows findall patterns rs items
      | Inr (Some item) \<Rightarrow> items_of_rows findall patterns rs (items @ [item]))"

definition get_all_items_from_table_urls :: "regex_findall \<Rightarrow> table \<Rightarrow> string list \<Rightarrow> error + string list" where
  "get_all_items_from_table_urls findall tbl patterns =
     items_of_rows findall patterns (parse_table_rows tbl) []"

definition get_all_items_from_stat_table_urls ::
    "regex_findall \<Rightarrow> table \<Rightarrow> string list \<Rightarrow> bool \<Rightarrow> error + string list" where
  "get_all_items_from_stat_table_urls findall stat_table patterns skip_row =
     (case parse_stat_table_rows stat_table skip_row of
        Inl e \<Rightarrow> Inl e
      | Inr cleaner_rows \<Rightarrow> items_of_rows findall patterns cleaner_rows [])"

text \<open>What a URL and a row yield, stated without the loops: the first match of the first
  pattern that matches the URL, and the first non-empty such item among the row's hrefs.\<close>

definition url_item :: "regex_findall \<Rightarrow> string list \<Rightarrow> string \<Rightarrow> string option" where
  "url_item findall patterns url =
     (case filter (\<lambda>p. findall p url \<noteq> []) patterns of
        [] \<Rightarrow> None
      | p # _ \<Rightarrow> Some (hd (findall p url)))"

definition row_item :: "regex_findall \<Rightarrow> string list \<Rightarrow> row \<Rightarrow> string option" where
  "row_item findall patterns r =
     (case filter (\<lambda>u. url_item findall patterns u \<noteq> None \<and> url_item findall patterns u \<noteq> Some [])
             (row_hrefs r) of
        [] \<Rightarrow> None
      | u # _ \<Rightarrow> url_item findall patterns u)"

definition link_row :: "string list \<Rightarrow> string list \<Rightarrow> row" where
  "link_row cs urls = \<lparr>row_class = None, cells = cs, hrefs = map Some urls\<rparr>"

definition squads_example :: table where
  "squads_example = \<lparr>caption = Some ''Regular season Table'', rows =
     [link_row [''Squad'', ''Pts''] [],
      link_row [''Arsenal'', ''84''] [''/en/squads/18bb7c10/Arsenal-Stats''],
      link_row [''Promoted side'', ''0''] [],
      link_row [''Chelsea'', ''63''] [''/en/squads/cff3d9bb/Chelsea-Stats'']]\<rparr>"

section \<open>Table Locator\<close>

text \<open>
  \<^verbatim>\<open>get_table_name\<close> and \<^verbatim>\<open>get_tables_from_caption\<close> (fbref_scraper.py). A table without a
  caption has the name \<^verbatim>\<open>None\<close>, and \<^verbatim>\<open>re.findall\<close> on \<^verbatim>\<open>None\<close> raises \<^verbatim>\<open>TypeError\<close>.
  \<open>table_names\<close> holds the lists returned by \<^verbatim>\<open>re.findall\<close> for the tables selected so far.
\<close>

definition get_table_name :: "table \<Rightarrow> bool \<Rightarrow> string option" where
  "get_table_name tbl remove_table =
     (case caption tbl of
        None \<Rightarrow> None
      | Some text \<Rightarrow>
          (let table_name = py_strip text
           in Some (if py_in ''Table'' table_name \<and> remove_table
                    then py_strip (py_replace ''Table'' '''' table_name)
                    else table_name)))"

fun match_patterns ::
    "regex_findall \<Rightarrow> table \<Rightarrow> string list \<Rightarrow> table list \<times> string list list
       \<Rightarrow> error + table list \<times> string list list" where
  "match_patterns findall tbl [] st = Inr st"
| "match_patterns findall tbl (regex_pattern # regex_patterns) (tables, table_names) =
     (case get_table_name tbl True of
        None \<Rightarrow> Inl TypeError
      | Some name \<Rightarrow>
          (let table_name = findall regex_pattern name
           in if table_name \<noteq> []
              then (if table_name \<notin> set table_names
                    then match_patterns findall tbl regex_patterns (tables @ [tbl], table_names @ [table_name])
                    else match_patterns findall tbl regex_patterns (tables, table_names))
              else match_patterns findall tbl regex_patterns (tables, table_names)))"

fun match_tables ::
    "regex_findall \<Rightarrow> table list \<Rightarrow> string list \<Rightarrow> table list \<times> string list list
       \<Rightarrow> error + table list \<times> string list list" where
  "match_tables findall [] regex_patterns st = Inr st"
| "match_tables findall (tbl # all_tables) regex_patterns st =
     (case match_patterns findall tbl regex_patterns st of
        Inl e \<Rightarrow> Inl e
      | Inr st' \<Rightarrow> match_tables findall all_tables regex_patterns st')"

definition get_tables_from_caption :: "regex_findall \<Rightarrow> table list \<Rightarrow> string list \<Rightarrow> error + table list option" where
  "get_tables_from_caption findall all_tables regex_patterns =
     (case match_tables findall all_tables regex_patterns ([], []) of
        Inl e \<Rightarrow> Inl e
      | Inr (tables, table_names) \<Rightarrow> Inr (if length tables > 0 then Some tables else None))"

text \<open>
  The pairs of a table and a non-empty match value, in the order the loops visit them (tables
  in document order, patterns in list order within a table), and the pairs among them whose
  match value has not occurred before.
\<close>

definition table_matches :: "regex_findall \<Rightarrow> string list \<Rightarrow> table \<Rightarrow> (table \<times> string list) list" where
  "table_matches findall regex_patterns tbl =
     filter (\<lambda>(t, m). m \<noteq> [])
       (map (\<lambda>p. (tbl, findall p (case get_table_name tbl True of Some name \<Rightarrow> name | None \<Rightarrow> [])))
          regex_patterns)"

definition caption_matches :: "regex_findall \<Rightarrow> table list \<Rightarrow> string list \<Rightarrow> (table \<times> string list) list" where
  "caption_matches findall all_tables regex_patterns =
     concat (map (table_matches findall regex_patterns) all_tables)"

fun first_by_value :: "'b list \<Rightarrow> ('a \<times> 'b) list \<Rightarrow> ('a \<times> 'b) list" where
  "first_by_value seen [] = []"
| "first_by_value seen ((t, m) # xs) =
     (if m \<in> set seen then first_by_value seen xs else (t, m) # first_by_value (seen @ [m]) xs)"

definition captioned :: "string \<Rightarrow> string \<Rightarrow> table" where
  "captioned text cell = \<lparr>caption = Some text, rows = [mk_row [cell]]\<rparr>"

definition uncaptioned :: table where
  "uncaptioned = \<lparr>caption = None, rows = []\<rparr>"

section \<open>League standings: the top scorer\<close>

text \<open>
  \<^verbatim>\<open>clean_top_scorer\<close> (fbref_league_standings_scraper.py), applied to one standings record.
  The raw cell is moved into a one-element list, each scorer of that list adds one entry to
  \<^verbatim>\<open>player\<close> and one to \<^verbatim>\<open>goals_scored\<close>, and only \<^verbatim>\<open>goals_scored\<close> is unwrapped at the end.
\<close>

fun top_scorer_loop :: "pyval list \<Rightarrow> pyval list \<Rightarrow> pyval list \<Rightarrow> error + pyval list \<times> pyval list" where
  "top_scorer_loop [] player goals_scored = Inr (player, goals_scored)"
| "top_scorer_loop (scorer # raw_top_scorer) player goals_scored =
     (case scorer of
        PyStr s \<Rightarrow>
          (let p_n = split_on CHR ''-'' s;
               names = py_join '' '' (butlast p_n);
               player' = (if length (split_on CHR '','' names) > 1
                          then player @ [PyList (map PyStr (split_on CHR '','' names))]
                          else player @ [PyStr names])
           in case py_int (last p_n) of
                None \<Rightarrow> Inl ValueError_conversion
              | Some n \<Rightarrow> top_scorer_loop raw_top_scorer player' (goals_scored @ [PyInt n]))
      | _ \<Rightarrow> Inl AttributeError)"

definition clean_top_scorer :: "pyval dict \<Rightarrow> error + pyval dict" where
  "clean_top_scorer league_standings_data_dict =
     (case map_of league_standings_data_dict ''top_team_scorer'' of
        None \<Rightarrow> Inl KeyError
      | Some raw \<Rightarrow>
          (let d = AList.delete ''top_team_scorer'' league_standings_data_dict;
               d = AList.update ''raw_top_scorer'' (PyList [raw]) d;
               d = AList.update ''top_team_scorer''
                     (PyDict [(''player'', PyList []), (''goals_scored'', PyList [])]) d
           in case top_scorer_loop [raw] [] [] of
                Inl e \<Rightarrow> Inl e
              | Inr (player, goals_scored) \<Rightarrow>
                  (let d = AList.update ''top_team_scorer''
                             (PyDict [(''player'', PyList player), (''goals_scored'', PyList goals_scored)]) d;
                       d = AList.delete ''raw_top_scorer'' d;
                       d = (if length goals_scored = 1
                            then AList.update ''top_team_scorer''
                                   (PyDict [(''player'', PyList player), (''goals_scored'', goals_scored ! 0)]) d
                            else d)
                   in Inr d)))"

section \<open>Type coercion\<close>

text \<open>
  \<^verbatim>\<open>convert_list_from_str\<close> and \<^verbatim>\<open>convert_dict_dtypes\<close> (fbref_scraper.py). A column is a
  list of strings in which \<^verbatim>\<open>None\<close> may stand (\<open>string option\<close>); the converted dictionary
  holds Python values. The built-ins \<^verbatim>\<open>int\<close> and \<^verbatim>\<open>float\<close> on a string are the parameters
  \<open>int_of_str\<close> and \<open>py_float\<close>, \<open>None\<close> standing for their \<^verbatim>\<open>ValueError\<close>: what is proved of
  the conversion holds whatever strings the two built-ins accept. The list comprehension
  raises at the first cell that does not convert.
\<close>

definition cell_val :: "string option \<Rightarrow> pyval" where
  "cell_val x = (case x of None \<Rightarrow> PyNone | Some s \<Rightarrow> PyStr s)"

definition int_builtin :: "(string \<Rightarrow> int option) \<Rightarrow> string \<Rightarrow> pyval option" where
  "int_builtin int_of_str s = map_option PyInt (int_of_str s)"

definition float_builtin :: "(string \<Rightarrow> pyfloat option) \<Rightarrow> string \<Rightarrow> pyval option" where
  "float_builtin py_float s = map_option PyFloat (py_float s)"

fun convert_each :: "(string \<Rightarrow> pyval option) \<Rightarrow> string option list \<Rightarrow> error + pyval list" where
  "convert_each conv [] = Inr []"
| "convert_each conv (x # xs) =
     (case (case x of
              None \<Rightarrow> Inr PyNone
            | Some s \<Rightarrow>
                if s \<noteq> [] then (case conv s of None \<Rightarrow> Inl ValueError_conversion | Some v \<Rightarrow> Inr v)
                else Inr PyNone) of
        Inl e \<Rightarrow> Inl e
      | Inr v \<Rightarrow> (case convert_each conv xs of Inl e \<Rightarrow> Inl e | Inr vs \<Rightarrow> Inr (v # vs)))"

definition convert_list_from_str ::
    "(string \<Rightarrow> int option) \<Rightarrow> (string \<Rightarrow> pyfloat option) \<Rightarrow> string option list \<Rightarrow> string
       \<Rightarrow> error + pyval list" where
  "convert_list_from_str int_of_str py_float list_of_strings convert_to =
     (if convert_to = ''int'' then convert_each (int_builtin int_of_str) list_of_strings
      else if convert_to = ''float'' then convert_each (float_builtin py_float) list_of_strings
      else Inr (map cell_val list_of_strings))"

fun convert_columns ::
    "(string \<Rightarrow> int option) \<Rightarrow> (string \<Rightarrow> pyfloat option) \<Rightarrow> string list \<Rightarrow> string list
       \<Rightarrow> string option list dict \<Rightarrow> error + pyval list dict" where
  "convert_columns int_of_str py_float int_keys float_keys [] = Inr []"
| "convert_columns int_of_str py_float int_keys float_keys ((k, col) # rest) =
     (case (if k \<in> set int_keys then convert_list_from_str int_of_str py_float col ''int''
            else if k \<in> set float_keys then convert_list_from_str int_of_str py_float col ''float''
            else Inr (map cell_val col)) of
        Inl e \<Rightarrow> Inl e
      | Inr col' \<Rightarrow>
          (case convert_columns int_of_str py_float int_keys float_keys rest of
             Inl e \<Rightarrow> Inl e
           | Inr rest' \<Rightarrow> Inr ((k, col') # rest')))"

definition convert_dict_dtypes ::
    "(string \<Rightarrow> int option) \<Rightarrow> (string \<Rightarrow> pyfloat option) \<Rightarrow> string option list dict
       \<Rightarrow> string list \<Rightarrow> string list \<Rightarrow> error + pyval list dict" where
  "convert_dict_dtypes int_of_str py_float data_dict int_keys float_keys =
     convert_columns int_of_str py_float int_keys float_keys data_dict"

text \<open>
  The conversion a key is designated for (integer keys first), a cell of a designated column
  that does not convert, and what a converted cell is.
\<close>

definition designated ::
    "(string \<Rightarrow> int option) \<Rightarrow> (string \<Rightarrow> pyfloat option) \<Rightarrow> string list \<Rightarrow> string list
       \<Rightarrow> string \<Rightarrow> (string \<Rightarrow> pyval option) option" where
  "designated int_of_str py_float int_keys float_keys k =
     (if k \<in> set int_keys then Some (int_builtin int_of_str)
      else if k \<in> set float_keys then Some (float_builtin py_float)
      else None)"

definition non_numeric_cell ::
    "(string \<Rightarrow> int option) \<Rightarrow> (string \<Rightarrow> pyfloat option) \<Rightarrow> string list \<Rightarrow> string list
       \<Rightarrow> string option list dict \<Rightarrow> bool" where
  "non_numeric_cell int_of_str py_float int_keys float_keys data_dict =
     (\<exists>k col s conv. (k, col) \<in> set data_dict \<and> Some s \<in> set col \<and> s \<noteq> []
         \<and> designated int_of_str py_float int_keys float_keys k = Some conv \<and> conv s = None)"

definition coerced :: "(string \<Rightarrow> pyval option) option \<Rightarrow> string option \<Rightarrow> pyval \<Rightarrow> bool" where
  "coerced d x y =
     (case d of
        None \<Rightarrow> y = cell_val x
      | Some conv \<Rightarrow>
          (case x of
             None \<Rightarrow> y = PyNone
           | Some s \<Rightarrow> if s = [] then y = PyNone else conv s = Some y))"

definition coercion_example :: "string option list dict" where
  "coercion_example =
     [(''x'', [Some ''3'', Some '''', Some ''7'']), (''player'', [Some ''Kane'', Some '''', None])]"

section \<open>Leagues of a country\<close>

text \<open>
  \<^verbatim>\<open>scrape_clean_data\<close>, \<^verbatim>\<open>clean_leagues_data\<close> and \<^verbatim>\<open>change_league_dict_orientation\<close>
  (fbref_leagues_scraper.py). The argument \<open>leagues_data_dict\<close> is what
  \<^verbatim>\<open>scrape_leagues_data(country_code)\<close> returned: for each league category either \<^verbatim>\<open>None\<close> or
  a column mapping of strings. \<open>collect\<close> runs a list of computations up to the first one
  that raises.
\<close>

fun collect :: "(error + 'a) list \<Rightarrow> error + 'a list" where
  "collect [] = Inr []"
| "collect (x # xs) =
     (case x of
        Inl e \<Rightarrow> Inl e
      | Inr v \<Rightarrow> (case collect xs of Inl e \<Rightarrow> Inl e | Inr vs \<Rightarrow> Inr (v # vs)))"

definition reorder_dict_keys :: "'v dict \<Rightarrow> string list \<Rightarrow> 'v dict" where
  "reorder_dict_keys data_dict new_order =
     dict_of_pairs (concat (map (\<lambda>k. case map_of data_dict k of None \<Rightarrow> [] | Some v \<Rightarrow> [(k, v)]) new_order))"

definition convert_leagues_dict_dtypes ::
    "(string \<Rightarrow> pyfloat option) \<Rightarrow> string list dict \<Rightarrow> error + pyval list dict" where
  "convert_leagues_dict_dtypes py_float leagues_data_dict =
     (let int_keys = [''league_id''];
          float_keys = []
      in convert_columns py_int py_float int_keys float_keys
           (map (\<lambda>(k, col). (k, map Some col)) leagues_data_dict))"

definition reorder_leagues_dict_keys :: "'v dict \<Rightarrow> 'v dict" where
  "reorder_leagues_dict_keys leagues_data_dict =
     (let new_key_order =
            [''league_id'', ''competition_name'', ''gender'', ''first_season'', ''last_season'', ''tier'']
      in reorder_dict_keys leagues_data_dict new_key_order)"

definition league_row :: "pyval list dict \<Rightarrow> nat \<Rightarrow> error + pyval dict" where
  "league_row league_sub_dict i =
     collect (map (\<lambda>(key2, col). if i < length col then Inr (key2, col ! i) else Inl IndexError)
                league_sub_dict)"

definition league_type_entry :: "string \<Rightarrow> pyval list dict \<Rightarrow> error + pyval" where
  "league_type_entry key league_sub_dict =
     (case map_of league_sub_dict ''league_id'' of
        None \<Rightarrow> Inl KeyError
      | Some league_ids \<Rightarrow>
          (let num_leagues = length league_ids
           in case collect (map (league_row league_sub_dict) [0..<num_leagues]) of
                Inl e \<Rightarrow> Inl e
              | Inr leagues \<Rightarrow>
                  Inr (PyDict [(''league_type'', PyStr key), (''leagues'', PyList (map PyDict leagues))])))"

definition change_league_dict_orientation :: "pyval list dict dict \<Rightarrow> error + pyval dict" where
  "change_league_dict_orientation league_dict =
     (case collect (map (\<lambda>(key, league_sub_dict). league_type_entry key league_sub_dict) league_dict) of
        Inl e \<Rightarrow> Inl e
      | Inr data \<Rightarrow> Inr [(''data'', PyList data)])"

fun clean_leagues_loop ::
    "(string \<Rightarrow> pyfloat option) \<Rightarrow> string list dict option dict \<Rightarrow> pyval list dict dict
       \<Rightarrow> error + pyval list dict dict" where
  "clean_leagues_loop py_float [] leagues_data_dict_clean = Inr leagues_data_dict_clean"
| "clean_leagues_loop py_float ((key, value) # rest) leagues_data_dict_clean =
     (case value of
        None \<Rightarrow> clean_leagues_loop py_float rest leagues_data_dict_clean
      | Some leagues_sub_dict \<Rightarrow>
          (case convert_leagues_dict_dtypes py_float leagues_sub_dict of
             Inl e \<Rightarrow> Inl e
           | Inr converted \<Rightarrow>
               clean_leagues_loop py_float rest
                 (AList.update key (reorder_leagues_dict_keys converted) leagues_data_dict_clean)))"

definition clean_leagues_data ::
    "(string \<Rightarrow> pyfloat option) \<Rightarrow> string list dict option dict \<Rightarrow> error + pyval dict" where
  "clean_leagues_data py_float leagues_data_dict =
     (case clean_leagues_loop py_float leagues_data_dict [] of
        Inl e \<Rightarrow> Inl e
      | Inr leagues_data_dict_clean \<Rightarrow> change_league_dict_orientation leagues_data_dict_clean)"

definition scrape_clean_data ::
    "(string \<Rightarrow> pyfloat option) \<Rightarrow> string list dict option dict \<Rightarrow> error + pyval dict" where
  "scrape_clean_data py_float leagues_data_dict =
     (case clean_leagues_data py_float leagues_data_dict of
        Inl e \<Rightarrow> Inl e
      | Inr leagues_data_dict_clean \<Rightarrow>
          (let all_null_values = list_all (\<lambda>value. value = PyNone) (map snd leagues_data_dict_clean)
           in if all_null_values then Inl ValueError_country_code
              else Inr leagues_data_dict_clean))"

definition no_leagues :: "string list dict option dict" where
  "no_leagues =
     [(''domestic_leagues'', None), (''domestic_cups'', None),
      (''international_competitions'', None), (''national_team_competitions'', None)]"

section \<open>Column cleaners of the statistics scrapers\<close>

text \<open>
  \<^verbatim>\<open>clean_gf_ga\<close> (fbref_scraper.py) searches the value with the pattern
  \<^verbatim>\<open>(\d+)\s*\((\d+)\)\<close> and takes the first group of the first match. At a given start the
  pattern can match in one way only (a shorter run of digits or of whitespace is followed by a
  character of the same class, which the next element of the pattern rejects), so the match at
  a position is found by taking the maximal runs; \<^verbatim>\<open>re.findall\<close> scans the start positions from
  left to right.
\<close>

definition is_digit :: "char \<Rightarrow> bool" where
  "is_digit c = (c \<in> set ''0123456789'')"

definition match_shootout_here :: "string \<Rightarrow> (string \<times> string) option" where
  "match_shootout_here s =
     (let x = takeWhile is_digit s;
          after_space = dropWhile is_space (dropWhile is_digit s)
      in if x = [] then None
         else (case after_space of
                 [] \<Rightarrow> None
               | c # r \<Rightarrow>
                   if c = CHR ''(''
                   then (let y = takeWhile is_digit r
                         in if y = [] then None
                            else (case dropWhile is_digit r of
                                    [] \<Rightarrow> None
                                  | c' # _ \<Rightarrow> if c' = CHR '')'' then Some (x, y) else None))
                   else None))"

fun search_shootout :: "string \<Rightarrow> (string \<times> string) option" where
  "search_shootout [] = None"
| "search_shootout (c # cs) =
     (case match_shootout_here (c # cs) of
        Some m \<Rightarrow> Some m
      | None \<Rightarrow> search_shootout cs)"

definition clean_gf_ga :: "string \<Rightarrow> string" where
  "clean_gf_ga gf_ga =
     (case search_shootout gf_ga of
        Some (x, y) \<Rightarrow> x
      | None \<Rightarrow> gf_ga)"

text \<open>
  \<^verbatim>\<open>clean_team_name\<close>: the pattern \<^verbatim>\<open>^[a-z]{2,3}(.*)\<close> matches when the name starts with two
  lowercase letters; it takes a third one if there is one, and the group is the rest of the
  first line.
\<close>

definition is_lower :: "char \<Rightarrow> bool" where
  "is_lower c = (c \<in> set ''abcdefghijklmnopqrstuvwxyz'')"

definition rest_of_line :: "string \<Rightarrow> string" where
  "rest_of_line s = takeWhile (\<lambda>c. c \<noteq> CHR 0x0A) s"

definition abbreviation_match :: "string \<Rightarrow> string option" where
  "abbreviation_match team_name =
     (case team_name of
        a # b # r \<Rightarrow>
          if is_lower a \<and> is_lower b
          then (case r of
                  c # r' \<Rightarrow> if is_lower c then Some (rest_of_line r') else Some (rest_of_line r)
                | [] \<Rightarrow> Some [])
          else None
      | _ \<Rightarrow> None)"

definition clean_team_name :: "string \<Rightarrow> string" where
  "clean_team_name team_name =
     (let team_name = (case abbreviation_match team_name of Some g \<Rightarrow> g | None \<Rightarrow> team_name)
      in if length (split_on CHR ''-'' team_name) > 1
         then py_join '' '' (butlast (split_on CHR ''-'' team_name))
         else team_name)"

text \<open>The cleaners of fbref_stats_scraper.py.\<close>

definition clean_player_position :: "string \<Rightarrow> pyval" where
  "clean_player_position position =
     (if length (split_on CHR '','' position) > 1
      then PyList (map PyStr (split_on CHR '','' position))
      else PyStr position)"

definition clean_player_age :: "string \<Rightarrow> string" where
  "clean_player_age age =
     (if length (split_on CHR ''-'' age) > 1 then split_on CHR ''-'' age ! 0 else age)"

definition clean_player_min :: "string \<Rightarrow> string" where
  "clean_player_min m = py_replace '','' '''' m"

text \<open>A cleaner is written for a string: on another value its first string operation raises.\<close>

definition str_method :: "error \<Rightarrow> (string \<Rightarrow> pyval) \<Rightarrow> pyval \<Rightarrow> error + pyval" where
  "str_method err f v = (case v of PyStr s \<Rightarrow> Inr (f s) | _ \<Rightarrow> Inl err)"

definition cleaning_map :: "(string \<times> (pyval \<Rightarrow> error + pyval)) list" where
  "cleaning_map =
     [(''positions'', str_method AttributeError clean_player_position),
      (''age'', str_method AttributeError (\<lambda>x. PyStr (clean_player_age x))),
      (''min'', str_method AttributeError (\<lambda>x. PyStr (clean_player_min x))),
      (''opponent'', str_method TypeError (\<lambda>x. PyStr (clean_team_name x))),
      (''squad'', str_method TypeError (\<lambda>x. PyStr (clean_team_name x))),
      (''gf'', str_method TypeError (\<lambda>x. PyStr (clean_gf_ga x))),
      (''ga'', str_method TypeError (\<lambda>x. PyStr (clean_gf_ga x))),
      (''team_name'', str_method TypeError (\<lambda>x. PyStr (clean_team_name x)))]"

fun clean_columns_loop ::
    "(string \<times> (pyval \<Rightarrow> error + pyval)) list \<Rightarrow> pyval list dict \<Rightarrow> error + pyval list dict" where
  "clean_columns_loop [] sub_stat_dict = Inr sub_stat_dict"
| "clean_columns_loop ((column, method) # rest) sub_stat_dict =
     (case map_of sub_stat_dict column of
        None \<Rightarrow> clean_columns_loop rest sub_stat_dict
      | Some col \<Rightarrow>
          (case collect (map method col) of
             Inl e \<Rightarrow> Inl e
           | Inr col' \<Rightarrow> clean_columns_loop rest (AList.update column col' sub_stat_dict)))"

definition clean_stat_dict_columns :: "pyval list dict \<Rightarrow> error + pyval list dict" where
  "clean_stat_dict_columns sub_stat_dict = clean_columns_loop cleaning_map sub_stat_dict"

text \<open>A digit sequence, and a raw column mapping of strings as a dictionary of Python values.\<close>

definition digit_seq :: "string \<Rightarrow> bool" where
  "digit_seq s \<longleftrightarrow> s \<noteq> [] \<and> list_all is_digit s"

text \<open>
  \<open>shootout_at v n x\<close>: at position \<open>n\<close> of the value \<open>v\<close> stands a text of the form X (Y), a
  digit sequence \<open>x\<close>, optional whitespace and a parenthesised digit sequence.
\<close>

definition shootout_at :: "string \<Rightarrow> nat \<Rightarrow> string \<Rightarrow> bool" where
  "shootout_at v n x \<longleftrightarrow>
     (\<exists>pre ws y post. v = pre @ x @ ws @ ''('' @ y @ '')'' @ post \<and> length pre = n
         \<and> digit_seq x \<and> list_all is_space ws \<and> digit_seq y)"

definition str_columns :: "string list dict \<Rightarrow> pyval list dict" where
  "str_columns raw = map (\<lambda>(k, col). (k, map PyStr col)) raw"

definition schedule_example :: "string list dict" where
  "schedule_example =
     [(''opponent'', [''eng Arsenal'', ''Chelsea'']), (''gf'', [''1 (4)'', ''2'']), (''ga'', [''1 (5)'', ''0''])]"

section \<open>Reassembly of the statistics categories\<close>

text \<open>
  \<^verbatim>\<open>change_tms_dict_orientation\<close> (fbref_team_match_stats_scraper.py) and
  \<^verbatim>\<open>change_tss_dict_orientation\<close> (fbref_team_season_stats_scraper.py) are the same loops
  over a different reference column. The cleaned statistics are a dictionary from category
  (stat id) to a column mapping of Python values; \<open>meta_data\<close> is the list
  \<^verbatim>\<open>column_map['advanced']['meta_data']\<close> of the injected configuration. The record built
  for a row has the two keys \<^verbatim>\<open>meta_data\<close> and \<^verbatim>\<open>stats\<close>. Indexing a column beyond its end
  is the exception that the bare \<^verbatim>\<open>except\<close> turns into \<^verbatim>\<open>None\<close>.
\<close>

record entity =
  meta_data :: "pyval dict"
  stats :: "pyval dict dict"

type_synonym row_state = "pyval dict \<times> pyval dict \<times> string list"

fun stat_loop :: "nat \<Rightarrow> string list \<Rightarrow> pyval list dict \<Rightarrow> row_state \<Rightarrow> row_state" where
  "stat_loop i meta [] st = st"
| "stat_loop i meta ((stat, col) # rest) (md, sd, used_cols) =
     (if stat \<in> set meta
      then stat_loop i meta rest
             (AList.update stat (if i < length col then col ! i else PyNone) md, sd, used_cols)
      else if stat \<in> set used_cols
      then stat_loop i meta rest (md, sd, used_cols)
      else if i < length col
      then stat_loop i meta rest (md, AList.update stat (col ! i) sd, used_cols @ [stat])
      else stat_loop i meta rest (md, AList.update stat PyNone sd, used_cols))"

type_synonym record_state = "pyval dict \<times> pyval dict dict \<times> string list"

fun stat_id_loop :: "nat \<Rightarrow> string list \<Rightarrow> pyval list dict dict \<Rightarrow> record_state \<Rightarrow> record_state" where
  "stat_id_loop i meta [] st = st"
| "stat_id_loop i meta ((stat_id, cols) # rest) (md, st, used_cols) =
     (case stat_loop i meta cols (md, [], used_cols) of
        (md', sd, used_cols') \<Rightarrow>
          stat_id_loop i meta rest (md', AList.update stat_id sd (AList.update stat_id [] st), used_cols'))"

definition build_record :: "string list \<Rightarrow> pyval list dict dict \<Rightarrow> nat \<Rightarrow> entity" where
  "build_record meta d i =
     (case stat_id_loop i meta d ([], [], []) of
        (md, st, used_cols) \<Rightarrow> \<lparr>meta_data = md, stats = st\<rparr>)"

definition change_tms_dict_orientation :: "string list \<Rightarrow> pyval list dict dict \<Rightarrow> error + entity list" where
  "change_tms_dict_orientation meta team_match_stats_dict_clean =
     (case map_of team_match_stats_dict_clean ''schedule'' of
        None \<Rightarrow> Inl KeyError
      | Some schedule \<Rightarrow>
          (case map_of schedule ''match_id'' of
             None \<Rightarrow> Inl KeyError
           | Some match_ids \<Rightarrow>
               (let num_matches = length match_ids
                in Inr (map (build_record meta team_match_stats_dict_clean) [0..<num_matches]))))"

definition change_tss_dict_orientation :: "string list \<Rightarrow> pyval list dict dict \<Rightarrow> error + entity list" where
  "change_tss_dict_orientation meta team_season_stats_dict_clean =
     (case map_of team_season_stats_dict_clean ''stats'' of
        None \<Rightarrow> Inl KeyError
      | Some st \<Rightarrow>
          (case map_of st ''team_id'' of
             None \<Rightarrow> Inl KeyError
           | Some team_ids \<Rightarrow>
               (let num_teams = length team_ids
                in Inr (map (build_record meta team_season_stats_dict_clean) [0..<num_teams]))))"

text \<open>
  A dictionary of dictionaries has distinct keys at both levels. \<open>cell i col\<close> is what
  reading row \<open>i\<close> of a column yields in the loops.
\<close>

definition wf_stats :: "pyval list dict dict \<Rightarrow> bool" where
  "wf_stats d \<longleftrightarrow> distinct (map fst d) \<and> list_all (\<lambda>(stat_id, cols). distinct (map fst cols)) d"

definition cell :: "nat \<Rightarrow> pyval list \<Rightarrow> pyval" where
  "cell i col = (if i < length col then col ! i else PyNone)"

definition two_categories :: "pyval list dict dict" where
  "two_categories =
     [(''schedule'', [(''match_id'', [PyStr ''m1'']), (''date'', [PyStr ''2024-01-01'']),
                      (''gf'', [PyInt 2])]),
      (''shooting'', [(''date'', [PyStr ''2024-02-02'']), (''gf'', [PyInt 3]), (''sh'', [PyInt 9])])]"

definition short_first :: "pyval list dict dict" where
  "short_first =
     [(''schedule'', [(''match_id'', [PyStr ''m1'', PyStr ''m2'']), (''date'', [PyStr ''a'', PyStr ''b'']),
                      (''gf'', [PyInt 2])]),
      (''shooting'', [(''date'', [PyStr ''c'']), (''gf'', [PyInt 3, PyInt 4]), (''sh'', [PyInt 9])])]"

definition two_season_categories :: "pyval list dict dict" where
  "two_season_categories =
     [(''stats'', [(''team_id'', [PyStr ''t1'']), (''squad'', [PyStr ''Arsenal'']), (''gls'', [PyInt 5])]),
      (''shooting'', [(''squad'', [PyStr ''Arsenal FC'']), (''gls'', [PyInt 6]), (''sh'', [PyInt 9])])]"

section \<open>Properties\<close>

subsection \<open>Header de-duplication\<close>

lemma add_suffix_loop_char:
  "(\<And>h. header_count h = (if count_list seen h = 0 then None else Some (count_list seen h))) \<Longrightarrow>
   add_suffix_loop header_count result headers =
     result @ map (suffixed_header seen headers) [0..<length headers]"
proof (induction headers arbitrary: header_count result seen)
  case Nil
  then show ?case by simp
next
  case (Cons h hs)
  let ?hc = "header_count(h \<mapsto> count_list seen h + 1)"
  have inv: "\<And>x. ?hc x = (if count_list (seen @ [h]) x = 0 then None else Some (count_list (seen @ [h]) x))"
    using Cons.prems by simp
  have shift: "map (suffixed_header seen (h # hs)) [0..<length (h # hs)] =
      suffixed_header seen (h # hs) 0 # map (suffixed_header (seen @ [h]) hs) [0..<length hs]"
    by (simp add: upt_conv_Cons map_Suc_upt [symmetric] suffixed_header_def del: upt_Suc)
  have head: "add_suffix_loop header_count result (h # hs) =
      add_suffix_loop ?hc (result @ [suffixed_header seen (h # hs) 0]) hs"
  proof (cases "count_list seen h = 0")
    case True
    then have "header_count h = None" using Cons.prems by simp
    then show ?thesis using True by (simp add: suffixed_header_def)
  next
    case False
    then have "header_count h = Some (count_list seen h)" using Cons.prems by simp
    then show ?thesis using False by (simp add: suffixed_header_def)
  qed
  show ?case
    unfolding head shift Cons.IH [OF inv] by simp
qed

text \<open>
  C9. Header de-duplication keeps the first occurrence of each name unchanged and gives
  the k-th repeat (k = 1, 2, ...) the suffix k; the headers gls, gls, ast become
  gls, gls1, ast.
\<close>

theorem C9_header_dedup:
  "add_suffix_to_repeat_headers headers =
     map (\<lambda>i. let k = count_list (take i headers) (headers ! i)
              in if k = 0 then headers ! i else headers ! i @ str_nat k) [0..<length headers]
   \<and> add_suffix_to_repeat_headers [''gls'', ''gls'', ''ast''] = [''gls'', ''gls1'', ''ast'']"
proof
  have "add_suffix_to_repeat_headers headers = map (suffixed_header [] headers) [0..<length headers]"
    unfolding add_suffix_to_repeat_headers_def
    using add_suffix_loop_char [of Map.empty "[]" "[]" headers] by simp
  then show "add_suffix_to_repeat_headers headers =
     map (\<lambda>i. let k = count_list (take i headers) (headers ! i)
              in if k = 0 then headers ! i else headers ! i @ str_nat k) [0..<length headers]"
    by (simp add: suffixed_header_def)
next
  show "add_suffix_to_repeat_headers [''gls'', ''gls'', ''ast''] = [''gls'', ''gls1'', ''ast'']"
    by (simp add: add_suffix_to_repeat_headers_def str_nat.simps [of "Suc 0"] digit_char_def)
qed

subsection \<open>Totals rows\<close>

lemma py_in_iff: "py_in sub s \<longleftrightarrow> (\<exists>pre post. s = pre @ sub @ post)"
proof (induction s)
  case Nil
  then show ?case by auto
next
  case (Cons c cs)
  have "take (length sub) (c # cs) = sub \<longleftrightarrow> (\<exists>post. c # cs = sub @ post)"
    by (metis append_eq_conv_conj append_take_drop_id)
  moreover have "(\<exists>pre post. c # cs = pre @ sub @ post) \<longleftrightarrow>
      (\<exists>post. c # cs = sub @ post) \<or> (\<exists>pre post. cs = pre @ sub @ post)"
  proof
    assume "\<exists>pre post. c # cs = pre @ sub @ post"
    then obtain pre post where e: "c # cs = pre @ sub @ post" by blast
    show "(\<exists>post. c # cs = sub @ post) \<or> (\<exists>pre post. cs = pre @ sub @ post)"
    proof (cases pre)
      case Nil
      then show ?thesis using e by auto
    next
      case (Cons p ps)
      then have "cs = ps @ sub @ post" using e by simp
      then show ?thesis by blast
    qed
  next
    assume "(\<exists>post. c # cs = sub @ post) \<or> (\<exists>pre post. cs = pre @ sub @ post)"
    then show "\<exists>pre post. c # cs = pre @ sub @ post"
    proof
      assume "\<exists>post. c # cs = sub @ post"
      then show ?thesis by (metis append_Nil)
    next
      assume "\<exists>pre post. cs = pre @ sub @ post"
      then show ?thesis by (metis append_Cons)
    qed
  qed
  ultimately show ?case using Cons.IH by simp
qed

lemma detect_totals_loop_block:
  "\<forall>r\<in>set blk. totals_row r \<Longrightarrow>
   rest = [] \<or> (hd rest \<noteq> [] \<and> \<not> totals_row (hd rest)) \<Longrightarrow>
   detect_totals_loop (blk @ rest) n = Inr (n + length blk)"
proof (induction blk arbitrary: n)
  case Nil
  then show ?case
    by (cases rest) (auto simp: totals_row_def split: list.splits)
next
  case (Cons r blk)
  then show ?case
    by (auto simp: totals_row_def split: list.splits)
qed

lemma detect_totals_rows_block:
  assumes "\<forall>r\<in>set block. totals_row r"
    and "body = [] \<or> (last body \<noteq> [] \<and> \<not> totals_row (last body))"
  shows "detect_totals_rows (body @ block) = Inr (length block)"
proof -
  have "rev body = [] \<or> (hd (rev body) \<noteq> [] \<and> \<not> totals_row (hd (rev body)))"
    using assms(2) by (auto simp: hd_rev)
  then show ?thesis
    unfolding detect_totals_rows_def
    using detect_totals_loop_block [of "rev block" "rev body" 0] assms(1) by simp
qed

lemma drop_last_rows_block: "drop_last_rows (int (length block)) (body @ block) = body"
  by (simp add: drop_last_rows_def)

text \<open>
  C8. When the rows handed to the parser end in a maximal block of rows whose first cell
  contains the substring Total, parsing with \<open>exclude_totals = True\<close> converts exactly the
  rows before that block, whatever \<open>drop_rows\<close> is passed.
\<close>

theorem C8_exclude_totals:
  assumes "all_row_data_of tbl skip_row = body @ block"
    and "\<forall>r\<in>set block. totals_row r"
    and "body = [] \<or> (last body \<noteq> [] \<and> \<not> totals_row (last body))"
  shows "parse_table_data tbl skip_row drop_rows True = convert_row_data_to_dict body
       \<and> parse_table_data tbl skip_row drop_rows True = parse_table_data tbl skip_row 0 True"
proof
  show "parse_table_data tbl skip_row drop_rows True = convert_row_data_to_dict body"
    using assms(1) detect_totals_rows_block [OF assms(2,3)] drop_last_rows_block [of block body]
    by (simp add: parse_table_data_def all_row_data_of_def Let_def)
  show "parse_table_data tbl skip_row drop_rows True = parse_table_data tbl skip_row 0 True"
    by (simp add: parse_table_data_def)
qed

lemmas eval_simps = parse_table_rows_def parse_all_row_data_def parse_row_data_def mk_row_def
  all_row_data_of_def totals_row_def convert_row_data_to_dict_def format_field_def py_strip_def
  py_lower_def py_lower_char_def py_replace_def is_space_def add_suffix_to_repeat_headers_def
  zip_star_def dict_of_pairs_def

theorem C8_exclude_totals_witness:
  "parse_table_data totals_example False 5 True = Inr [(''player'', [''Kane'']), (''gls'', [''3''])]
   \<and> parse_table_data totals_example False 5 True = parse_table_data totals_example False 0 True"
proof -
  have a: "all_row_data_of totals_example False =
      [[''Player'', ''Gls''], [''Kane'', ''3'']] @ [[''Total'', ''3''], [''Total2'', ''3'']]"
    by (simp add: totals_example_def eval_simps)
  have b: "\<forall>r\<in>set [[''Total'', ''3''], [''Total2'', ''3'']]. totals_row r"
    by (simp add: totals_row_def)
  have c: "[[''Player'', ''Gls''], [''Kane'', ''3'']] = [] \<or>
      (last [[''Player'', ''Gls''], [''Kane'', ''3'']] \<noteq> [] \<and>
       \<not> totals_row (last [[''Player'', ''Gls''], [''Kane'', ''3'']]))"
    by (simp add: totals_row_def)
  have d: "convert_row_data_to_dict [[''Player'', ''Gls''], [''Kane'', ''3'']] =
      Inr [(''player'', [''Kane'']), (''gls'', [''3''])]"
    by (simp add: eval_simps)
  show ?thesis
    unfolding d [symmetric] by (rule C8_exclude_totals [OF a b c])
qed

subsection \<open>Rows whose length differs from the header's\<close>




lemma length_add_suffix_loop:
  "length (add_suffix_loop hc res hs) = length res + length hs"
  by (induction hs arbitrary: hc res) (auto split: option.splits simp: Let_def)

lemma length_add_suffix_to_repeat_headers [simp]:
  "length (add_suffix_to_repeat_headers hs) = length hs"
  by (simp add: add_suffix_to_repeat_headers_def length_add_suffix_loop)











subsection \<open>Identifiers embedded in URLs\<close>

lemma parse_pattern_loop_url_item:
  "patterns \<noteq> [] \<or> last_match \<noteq> None \<Longrightarrow>
   parse_pattern_loop findall patterns url last_match = Inr (url_item findall patterns url)"
proof (induction patterns arbitrary: last_match)
  case Nil
  then show ?case by (auto simp: url_item_def)
next
  case (Cons p ps)
  show ?case
  proof (cases "findall p url = []")
    case True
    then show ?thesis
      using Cons.IH [of "Some (findall p url)"] by (simp add: url_item_def)
  next
    case False
    then show ?thesis by (simp add: url_item_def hd_conv_nth)
  qed
qed

lemma parse_pattern_from_url_url_item:
  "patterns \<noteq> [] \<Longrightarrow> parse_pattern_from_url findall patterns url = Inr (url_item findall patterns url)"
  by (simp add: parse_pattern_from_url_def parse_pattern_loop_url_item)

lemma item_of_hrefs_first:
  "patterns \<noteq> [] \<Longrightarrow>
   item_of_hrefs findall patterns urls =
     Inr (case filter (\<lambda>u. url_item findall patterns u \<noteq> None \<and> url_item findall patterns u \<noteq> Some []) urls of
            [] \<Rightarrow> None
          | u # _ \<Rightarrow> url_item findall patterns u)"
  by (induction urls) (auto simp: parse_pattern_from_url_url_item split: option.splits)

lemma items_of_rows_map_filter:
  "patterns \<noteq> [] \<Longrightarrow>
   items_of_rows findall patterns rs items = Inr (items @ List.map_filter (row_item findall patterns) rs)"
proof (induction rs arbitrary: items)
  case Nil
  then show ?case by (simp add: map_filter_simps)
next
  case (Cons r rs)
  have "item_of_hrefs findall patterns (row_hrefs r) = Inr (row_item findall patterns r)"
    using Cons.prems by (simp add: item_of_hrefs_first row_item_def)
  then show ?case
    using Cons by (cases "row_item findall patterns r") (simp_all add: map_filter_simps)
qed

lemma length_map_filter_rows:
  "length (List.map_filter f rs) = length (filter (\<lambda>r. f r \<noteq> None) rs)"
  by (simp add: map_filter_def)

text \<open>
  C1 (as amended). With a non-empty pattern list, the URL-embedded-ID extractor returns, in row
  order, one entry for each row that has an href yielding a non-empty item, and nothing for
  any other row: the length of the list is the number of such rows, at most the row count.
  This holds for \<^verbatim>\<open>get_all_items_from_table_urls\<close> over the clean rows of the table and for
  \<^verbatim>\<open>get_all_items_from_stat_table_urls\<close> over the rows kept by \<^verbatim>\<open>parse_stat_table_rows\<close>.
\<close>

theorem C1_items_for_matching_rows_only:
  assumes "patterns \<noteq> []"
  shows "(\<exists>items. get_all_items_from_table_urls findall tbl patterns = Inr items
            \<and> items = List.map_filter (row_item findall patterns) (parse_table_rows tbl)
            \<and> length items = length (filter (\<lambda>r. row_item findall patterns r \<noteq> None) (parse_table_rows tbl))
            \<and> length items \<le> length (parse_table_rows tbl))
       \<and> (\<forall>cleaner_rows. parse_stat_table_rows tbl skip_row = Inr cleaner_rows \<longrightarrow>
            (\<exists>items. get_all_items_from_stat_table_urls findall tbl patterns skip_row = Inr items
               \<and> items = List.map_filter (row_item findall patterns) cleaner_rows
               \<and> length items = length (filter (\<lambda>r. row_item findall patterns r \<noteq> None) cleaner_rows)
               \<and> length items \<le> length cleaner_rows))"
  using assms
  by (simp add: get_all_items_from_table_urls_def get_all_items_from_stat_table_urls_def
      items_of_rows_map_filter length_map_filter_rows)

lemmas extract_simps = findall_literal_def url_item_def row_item_def row_hrefs_def link_row_def
  parse_table_rows_def squads_example_def map_filter_simps

theorem C1_items_witness:
  "\<exists>items. get_all_items_from_table_urls findall_literal squads_example [''18bb7c10'', ''cff3d9bb''] = Inr items
      \<and> items = [''18bb7c10'', ''cff3d9bb'']"
proof -
  have ne: "[''18bb7c10'', ''cff3d9bb''] \<noteq> []" by simp
  have "List.map_filter (row_item findall_literal [''18bb7c10'', ''cff3d9bb''])
          (parse_table_rows squads_example) = [''18bb7c10'', ''cff3d9bb'']"
    by (simp add: extract_simps)
  then show ?thesis
    using C1_items_for_matching_rows_only [OF ne, of findall_literal squads_example False] by simp
qed

text \<open>
  A standings table with a header row and three data rows, the second of which has no link:
  the extractor returns the two ids and no null entry, so the list is shorter than the table.
\<close>

theorem C1_no_null_entry_counterexample:
  "get_all_items_from_table_urls findall_literal squads_example [''18bb7c10'', ''cff3d9bb'']
     = Inr [''18bb7c10'', ''cff3d9bb'']
   \<and> get_all_items_from_stat_table_urls findall_literal squads_example [''18bb7c10'', ''cff3d9bb''] False
     = Inr [''18bb7c10'', ''cff3d9bb'']
   \<and> length (parse_table_rows squads_example) = 4
   \<and> length (rows squads_example) = 4"
  by (simp add: get_all_items_from_table_urls_def get_all_items_from_stat_table_urls_def
      parse_stat_table_rows_def stat_cleaner_rows_def parse_pattern_from_url_def
      findall_literal_def row_hrefs_def link_row_def parse_table_rows_def squads_example_def)

subsection \<open>Selection of tables by caption\<close>

lemma first_by_value_append:
  "first_by_value seen (xs @ ys) =
     first_by_value seen xs @ first_by_value (seen @ map snd (first_by_value seen xs)) ys"
  by (induction xs arbitrary: seen) auto

lemma match_patterns_first:
  assumes "get_table_name tbl True \<noteq> None"
  shows "match_patterns findall tbl ps (tables, table_names) =
     Inr (tables @ map fst (first_by_value table_names (table_matches findall ps tbl)),
          table_names @ map snd (first_by_value table_names (table_matches findall ps tbl)))"
proof (induction ps arbitrary: tables table_names)
  case Nil
  then show ?case by (simp add: table_matches_def)
next
  case (Cons p ps)
  obtain name where n: "get_table_name tbl True = Some name" using assms by auto
  have tm: "table_matches findall (p # ps) tbl =
      (if findall p name \<noteq> [] then [(tbl, findall p name)] else []) @ table_matches findall ps tbl"
    by (simp add: table_matches_def n)
  show ?case
    by (simp add: n tm Cons.IH Let_def)
qed

lemma match_tables_first:
  assumes "\<forall>t\<in>set all_tables. get_table_name t True \<noteq> None"
  shows "match_tables findall all_tables ps (tables, table_names) =
     Inr (tables @ map fst (first_by_value table_names (caption_matches findall all_tables ps)),
          table_names @ map snd (first_by_value table_names (caption_matches findall all_tables ps)))"
  using assms
proof (induction all_tables arbitrary: tables table_names)
  case Nil
  then show ?case by (simp add: caption_matches_def)
next
  case (Cons t ts)
  have cm: "caption_matches findall (t # ts) ps = table_matches findall ps t @ caption_matches findall ts ps"
    by (simp add: caption_matches_def)
  show ?case
    using Cons.prems
    by (simp add: match_patterns_first cm first_by_value_append Cons.IH)
qed

lemma first_by_value_Nil_iff: "first_by_value seen xs = [] \<longleftrightarrow> snd ` set xs \<subseteq> set seen"
  by (induction seen xs rule: first_by_value.induct) auto

lemma first_by_value_values:
  "set (map snd (first_by_value seen xs)) = snd ` set xs - set seen"
  by (induction seen xs rule: first_by_value.induct) auto

lemma first_by_value_not_seen: "(t, m) \<in> set (first_by_value seen xs) \<Longrightarrow> m \<notin> set seen"
  using first_by_value_values [of seen xs] by force

lemma first_by_value_distinct: "distinct (map snd (first_by_value seen xs))"
  by (induction seen xs rule: first_by_value.induct) (auto dest: first_by_value_not_seen)

lemma first_by_value_first:
  "xs = pre @ (t, m) # post \<Longrightarrow> m \<notin> set seen \<Longrightarrow> m \<notin> snd ` set pre \<Longrightarrow>
   (t, m) \<in> set (first_by_value seen xs)"
proof (induction pre arbitrary: seen xs)
  case Nil
  then show ?case by simp
next
  case (Cons a pre)
  obtain t' m' where a: "a = (t', m')" by (cases a)
  have ne: "m \<noteq> m'" using Cons.prems(3) a by auto
  have "(t, m) \<in> set (first_by_value seen' (pre @ (t, m) # post))" if "m \<notin> set seen'" for seen'
    by (rule Cons.IH [OF refl that]) (use Cons.prems(3) in auto)
  then show ?case
    using Cons.prems(1,2) a ne by auto
qed

lemma first_by_value_is_first:
  "(t, m) \<in> set (first_by_value seen xs) \<Longrightarrow>
   \<exists>pre post. xs = pre @ (t, m) # post \<and> m \<notin> snd ` set pre \<and> m \<notin> set seen"
proof (induction seen xs rule: first_by_value.induct)
  case (1 seen)
  then show ?case by simp
next
  case (2 seen t' m' xs)
  show ?case
  proof (cases "m' \<in> set seen")
    case True
    then have "(t, m) \<in> set (first_by_value seen xs)" using "2.prems" by simp
    then obtain pre post where "xs = pre @ (t, m) # post" "m \<notin> snd ` set pre" "m \<notin> set seen"
      using "2.IH"(1) True by blast
    then have "(t', m') # xs = ((t', m') # pre) @ (t, m) # post \<and> m \<notin> snd ` set ((t', m') # pre) \<and> m \<notin> set seen"
      using True by auto
    then show ?thesis by blast
  next
    case False
    show ?thesis
    proof (cases "(t, m) = (t', m')")
      case True
      then have "(t', m') # xs = [] @ (t, m) # xs \<and> m \<notin> snd ` set [] \<and> m \<notin> set seen"
        using False by simp
      then show ?thesis by blast
    next
      case ne: False
      then have "(t, m) \<in> set (first_by_value (seen @ [m']) xs)"
        using "2.prems" False by auto
      then obtain pre post where p: "xs = pre @ (t, m) # post" "m \<notin> snd ` set pre" "m \<notin> set (seen @ [m'])"
        using "2.IH"(2) False by blast
      then have "(t', m') # xs = ((t', m') # pre) @ (t, m) # post \<and> m \<notin> snd ` set ((t', m') # pre) \<and> m \<notin> set seen"
        by auto
      then show ?thesis by blast
    qed
  qed
qed

lemma caption_matches_Nil_iff:
  assumes "\<forall>t\<in>set all_tables. get_table_name t True \<noteq> None"
  shows "caption_matches findall all_tables ps = [] \<longleftrightarrow>
     (\<forall>t\<in>set all_tables. \<forall>p\<in>set ps. \<forall>name. get_table_name t True = Some name \<longrightarrow> findall p name = [])"
  using assms
  by (fastforce simp: caption_matches_def table_matches_def filter_empty_conv)

text \<open>
  C7 (as amended). When every table has a caption, \<^verbatim>\<open>get_tables_from_caption\<close> returns
  \<^verbatim>\<open>None\<close> exactly when no pattern matches the name of any table (the caption text as
  \<^verbatim>\<open>get_table_name\<close> returns it). Otherwise it returns the tables of the (table, pattern)
  pairs whose non-empty match value has not occurred at an earlier pair: no match value selects
  two tables, the first pair that yields a match value is selected, and no other pair is.
\<close>

theorem C7_caption_selection:
  assumes "\<forall>t\<in>set all_tables. caption t \<noteq> None"
    and "sel = first_by_value [] (caption_matches findall all_tables patterns)"
  shows "get_tables_from_caption findall all_tables patterns =
           Inr (if sel = [] then None else Some (map fst sel))
       \<and> (sel = [] \<longleftrightarrow>
            (\<forall>t\<in>set all_tables. \<forall>p\<in>set patterns. \<forall>name.
                get_table_name t True = Some name \<longrightarrow> findall p name = []))
       \<and> distinct (map snd sel)
       \<and> (\<forall>pre t m post.
              caption_matches findall all_tables patterns = pre @ (t, m) # post \<and> m \<notin> snd ` set pre
              \<longrightarrow> (t, m) \<in> set sel)
       \<and> (\<forall>t m. (t, m) \<in> set sel \<longrightarrow>
              (\<exists>pre post. caption_matches findall all_tables patterns = pre @ (t, m) # post
                  \<and> m \<notin> snd ` set pre))"
proof -
  have names: "\<forall>t\<in>set all_tables. get_table_name t True \<noteq> None"
    using assms(1) by (auto simp: get_table_name_def Let_def split: option.splits)
  have "match_tables findall all_tables patterns ([], []) = Inr (map fst sel, map snd sel)"
    using match_tables_first [OF names, of findall patterns "[]" "[]"] assms(2) by simp
  then have r: "get_tables_from_caption findall all_tables patterns =
      Inr (if sel = [] then None else Some (map fst sel))"
    by (simp add: get_tables_from_caption_def)
  have "sel = [] \<longleftrightarrow> caption_matches findall all_tables patterns = []"
    using assms(2) by (simp add: first_by_value_Nil_iff)
  then have e: "sel = [] \<longleftrightarrow>
      (\<forall>t\<in>set all_tables. \<forall>p\<in>set patterns. \<forall>name.
          get_table_name t True = Some name \<longrightarrow> findall p name = [])"
    using caption_matches_Nil_iff [OF names] by simp
  have d: "distinct (map snd sel)"
    using assms(2) by (simp add: first_by_value_distinct)
  have f: "\<forall>pre t m post.
      caption_matches findall all_tables patterns = pre @ (t, m) # post \<and> m \<notin> snd ` set pre
      \<longrightarrow> (t, m) \<in> set sel"
  proof (intro allI impI)
    fix pre t m post
    assume h: "caption_matches findall all_tables patterns = pre @ (t, m) # post \<and> m \<notin> snd ` set pre"
    have "(t, m) \<in> set (first_by_value [] (caption_matches findall all_tables patterns))"
      by (rule first_by_value_first [of _ pre t m post]) (use h in auto)
    then show "(t, m) \<in> set sel" using assms(2) by simp
  qed
  have g: "\<forall>t m. (t, m) \<in> set sel \<longrightarrow>
      (\<exists>pre post. caption_matches findall all_tables patterns = pre @ (t, m) # post
          \<and> m \<notin> snd ` set pre)"
  proof (intro allI impI)
    fix t m
    assume "(t, m) \<in> set sel"
    then have "(t, m) \<in> set (first_by_value [] (caption_matches findall all_tables patterns))"
      using assms(2) by simp
    from first_by_value_is_first [OF this]
    show "\<exists>pre post. caption_matches findall all_tables patterns = pre @ (t, m) # post
        \<and> m \<notin> snd ` set pre"
      by blast
  qed
  show ?thesis
    by (rule conjI [OF r conjI [OF e conjI [OF d conjI [OF f g]]]])
qed

lemmas caption_simps = get_table_name_def captioned_def py_strip_def is_space_def py_replace_def
  caption_matches_def table_matches_def findall_literal_def

theorem C7_caption_selection_witness:
  "get_tables_from_caption findall_literal
      [captioned ''Group A Table'' ''first'', captioned ''Group A Table'' ''second'',
       captioned ''Group B Table'' ''third''] [''Group A'', ''Group B'']
     = Inr (Some [captioned ''Group A Table'' ''first'', captioned ''Group B Table'' ''third''])"
proof -
  let ?ts = "[captioned ''Group A Table'' ''first'', captioned ''Group A Table'' ''second'',
       captioned ''Group B Table'' ''third'']"
  let ?sel = "[(captioned ''Group A Table'' ''first'', [''Group A'']),
       (captioned ''Group B Table'' ''third'', [''Group B''])]"
  have a: "\<forall>t\<in>set ?ts. caption t \<noteq> None"
    by (simp add: captioned_def)
  have b: "?sel = first_by_value [] (caption_matches findall_literal ?ts [''Group A'', ''Group B''])"
    by (simp add: caption_simps)
  show ?thesis
    using C7_caption_selection [OF a b] by simp
qed

text \<open>
  Two tables that yield the same match value for the first pattern are both returned when the
  second one also yields a new match value for another pattern; and a table without a caption
  makes the search raise instead of returning \<^verbatim>\<open>None\<close>.
\<close>

theorem C7_later_table_kept_counterexample:
  "get_tables_from_caption findall_literal
      [captioned ''Group A Table'' ''first'', captioned ''Group A Conference Table'' ''second'']
      [''Group A'', ''Conference'']
     = Inr (Some [captioned ''Group A Table'' ''first'', captioned ''Group A Conference Table'' ''second''])
   \<and> get_table_name (captioned ''Group A Table'' ''first'') True = Some ''Group A''
   \<and> get_table_name (captioned ''Group A Conference Table'' ''second'') True = Some ''Group A Conference''
   \<and> findall_literal ''Group A'' ''Group A'' = findall_literal ''Group A'' ''Group A Conference''
   \<and> findall_literal ''Group A'' ''Group A'' \<noteq> []
   \<and> get_tables_from_caption findall_literal [uncaptioned] [''Group A''] = Inl TypeError"
  by (simp add: get_tables_from_caption_def caption_simps uncaptioned_def)

subsection \<open>The top scorer of a standings record\<close>

lemma top_scorer_loop_single:
  "top_scorer_loop [PyStr ''Messi-20''] [] [] = Inr ([PyStr ''Messi''], [PyInt 20])"
  by code_simp

lemma top_scorer_loop_pair:
  "top_scorer_loop [PyStr ''Messi,Ronaldo-10''] [] [] =
     Inr ([PyList [PyStr ''Messi'', PyStr ''Ronaldo'']], [PyInt 10])"
  by code_simp

lemma clean_top_scorer_result:
  assumes "map_of d ''top_team_scorer'' = Some raw"
    and "top_scorer_loop [raw] [] [] = Inr (player, [goals])"
  shows "clean_top_scorer d =
     Inr (AList.update ''top_team_scorer'' (PyDict [(''player'', PyList player), (''goals_scored'', goals)])
           (AList.delete ''raw_top_scorer''
             (AList.update ''top_team_scorer''
                (PyDict [(''player'', PyList player), (''goals_scored'', PyList [goals])])
                (AList.update ''top_team_scorer''
                   (PyDict [(''player'', PyList []), (''goals_scored'', PyList [])])
                   (AList.update ''raw_top_scorer'' (PyList [raw])
                      (AList.delete ''top_team_scorer'' d))))))"
  by (simp add: clean_top_scorer_def Let_def assms del: top_scorer_loop.simps)

lemma clean_top_scorer_lookup:
  assumes "map_of d ''top_team_scorer'' = Some raw"
    and "top_scorer_loop [raw] [] [] = Inr (player, [goals])"
  shows "\<exists>d'. clean_top_scorer d = Inr d'
     \<and> map_of d' ''top_team_scorer'' = Some (PyDict [(''player'', PyList player), (''goals_scored'', goals)])
     \<and> (\<forall>k. k \<noteq> ''top_team_scorer'' \<and> k \<noteq> ''raw_top_scorer'' \<longrightarrow> map_of d' k = map_of d k)"
  unfolding clean_top_scorer_result [OF assms]
  by (simp add: update_conv' delete_conv')

text \<open>
  C5 (as amended). For a standings record whose raw top-scorer cell is Messi-20,
  \<^verbatim>\<open>clean_top_scorer\<close> produces \<open>top_team_scorer = {player: [Messi], goals_scored: 20}\<close>: the
  player entry is a list holding the scorer's name and the number after the last dash is the
  integer \<open>goals_scored\<close>. For the cell Messi,Ronaldo-10 it produces a \<open>top_team_scorer\<close>
  with \<open>goals_scored = 10\<close>. The other fields of the record are unchanged.
\<close>

theorem C5_top_scorer:
  "(map_of d ''top_team_scorer'' = Some (PyStr ''Messi-20'') \<longrightarrow>
      (\<exists>d'. clean_top_scorer d = Inr d'
         \<and> map_of d' ''top_team_scorer'' =
             Some (PyDict [(''player'', PyList [PyStr ''Messi'']), (''goals_scored'', PyInt 20)])
         \<and> (\<forall>k. k \<noteq> ''top_team_scorer'' \<and> k \<noteq> ''raw_top_scorer'' \<longrightarrow> map_of d' k = map_of d k)))
   \<and> (map_of d ''top_team_scorer'' = Some (PyStr ''Messi,Ronaldo-10'') \<longrightarrow>
      (\<exists>d' player. clean_top_scorer d = Inr d'
         \<and> map_of d' ''top_team_scorer'' =
             Some (PyDict [(''player'', player), (''goals_scored'', PyInt 10)])
         \<and> (\<forall>k. k \<noteq> ''top_team_scorer'' \<and> k \<noteq> ''raw_top_scorer'' \<longrightarrow> map_of d' k = map_of d k)))"
proof (intro conjI impI)
  assume "map_of d ''top_team_scorer'' = Some (PyStr ''Messi-20'')"
  from clean_top_scorer_lookup [OF this top_scorer_loop_single]
  show "\<exists>d'. clean_top_scorer d = Inr d'
         \<and> map_of d' ''top_team_scorer'' =
             Some (PyDict [(''player'', PyList [PyStr ''Messi'']), (''goals_scored'', PyInt 20)])
         \<and> (\<forall>k. k \<noteq> ''top_team_scorer'' \<and> k \<noteq> ''raw_top_scorer'' \<longrightarrow> map_of d' k = map_of d k)" .
next
  assume "map_of d ''top_team_scorer'' = Some (PyStr ''Messi,Ronaldo-10'')"
  from clean_top_scorer_lookup [OF this top_scorer_loop_pair]
  show "\<exists>d' player. clean_top_scorer d = Inr d'
         \<and> map_of d' ''top_team_scorer'' =
             Some (PyDict [(''player'', player), (''goals_scored'', PyInt 10)])
         \<and> (\<forall>k. k \<noteq> ''top_team_scorer'' \<and> k \<noteq> ''raw_top_scorer'' \<longrightarrow> map_of d' k = map_of d k)"
    by blast
qed

text \<open>
  The player entry is never a bare string and never a flat list of names: it is the list of
  the per-scorer entries, here one entry.
\<close>

theorem C5_player_is_list_counterexample:
  "clean_top_scorer [(''top_team_scorer'', PyStr ''Messi-20'')] =
     Inr [(''top_team_scorer'', PyDict [(''player'', PyList [PyStr ''Messi'']), (''goals_scored'', PyInt 20)])]
   \<and> clean_top_scorer [(''top_team_scorer'', PyStr ''Messi-20'')] \<noteq>
     Inr [(''top_team_scorer'', PyDict [(''player'', PyStr ''Messi''), (''goals_scored'', PyInt 20)])]
   \<and> clean_top_scorer [(''top_team_scorer'', PyStr ''Messi,Ronaldo-10'')] =
     Inr [(''top_team_scorer'',
           PyDict [(''player'', PyList [PyList [PyStr ''Messi'', PyStr ''Ronaldo'']]), (''goals_scored'', PyInt 10)])]
   \<and> clean_top_scorer [(''top_team_scorer'', PyStr ''Messi,Ronaldo-10'')] \<noteq>
     Inr [(''top_team_scorer'',
           PyDict [(''player'', PyList [PyStr ''Messi'', PyStr ''Ronaldo'']), (''goals_scored'', PyInt 10)])]"
proof -
  have single: "clean_top_scorer [(''top_team_scorer'', PyStr ''Messi-20'')] =
     Inr [(''top_team_scorer'', PyDict [(''player'', PyList [PyStr ''Messi'']), (''goals_scored'', PyInt 20)])]"
    using clean_top_scorer_result [OF _ top_scorer_loop_single, of "[(''top_team_scorer'', PyStr ''Messi-20'')]"]
    by simp
  have pair: "clean_top_scorer [(''top_team_scorer'', PyStr ''Messi,Ronaldo-10'')] =
     Inr [(''top_team_scorer'',
           PyDict [(''player'', PyList [PyList [PyStr ''Messi'', PyStr ''Ronaldo'']]), (''goals_scored'', PyInt 10)])]"
    using clean_top_scorer_result [OF _ top_scorer_loop_pair, of "[(''top_team_scorer'', PyStr ''Messi,Ronaldo-10'')]"]
    by simp
  show ?thesis
    unfolding single pair by simp
qed

theorem C5_top_scorer_witness:
  "(\<exists>d'. clean_top_scorer [(''rk'', PyInt 1), (''top_team_scorer'', PyStr ''Messi-20'')] = Inr d'
      \<and> map_of d' ''top_team_scorer'' =
          Some (PyDict [(''player'', PyList [PyStr ''Messi'']), (''goals_scored'', PyInt 20)])
      \<and> map_of d' ''rk'' = Some (PyInt 1))
   \<and> (\<exists>d' player. clean_top_scorer [(''rk'', PyInt 1), (''top_team_scorer'', PyStr ''Messi,Ronaldo-10'')] = Inr d'
      \<and> map_of d' ''top_team_scorer'' =
          Some (PyDict [(''player'', player), (''goals_scored'', PyInt 10)]))"
proof (rule conjI)
  have a: "map_of [(''rk'', PyInt 1), (''top_team_scorer'', PyStr ''Messi-20'')] ''top_team_scorer''
      = Some (PyStr ''Messi-20'')"
    by simp
  note t = C5_top_scorer [of "[(''rk'', PyInt 1), (''top_team_scorer'', PyStr ''Messi-20'')]",
      THEN conjunct1, THEN mp, OF a]
  from t show "\<exists>d'. clean_top_scorer [(''rk'', PyInt 1), (''top_team_scorer'', PyStr ''Messi-20'')] = Inr d'
      \<and> map_of d' ''top_team_scorer'' =
          Some (PyDict [(''player'', PyList [PyStr ''Messi'']), (''goals_scored'', PyInt 20)])
      \<and> map_of d' ''rk'' = Some (PyInt 1)"
  proof (elim exE conjE)
    fix d'
    assume c: "clean_top_scorer [(''rk'', PyInt 1), (''top_team_scorer'', PyStr ''Messi-20'')] = Inr d'"
      and p: "map_of d' ''top_team_scorer'' =
          Some (PyDict [(''player'', PyList [PyStr ''Messi'']), (''goals_scored'', PyInt 20)])"
      and k: "\<forall>k. k \<noteq> ''top_team_scorer'' \<and> k \<noteq> ''raw_top_scorer'' \<longrightarrow>
          map_of d' k = map_of [(''rk'', PyInt 1), (''top_team_scorer'', PyStr ''Messi-20'')] k"
    have r: "map_of d' ''rk'' = Some (PyInt 1)"
      using k [rule_format, of "''rk''"] by simp
    show ?thesis
      by (rule exI [of _ d'], intro conjI) (rule c p r)+
  qed
next
  have b: "map_of [(''rk'', PyInt 1), (''top_team_scorer'', PyStr ''Messi,Ronaldo-10'')] ''top_team_scorer''
      = Some (PyStr ''Messi,Ronaldo-10'')"
    by simp
  note t = C5_top_scorer [of "[(''rk'', PyInt 1), (''top_team_scorer'', PyStr ''Messi,Ronaldo-10'')]",
      THEN conjunct2, THEN mp, OF b]
  from t show "\<exists>d' player. clean_top_scorer [(''rk'', PyInt 1), (''top_team_scorer'', PyStr ''Messi,Ronaldo-10'')] = Inr d'
      \<and> map_of d' ''top_team_scorer'' =
          Some (PyDict [(''player'', player), (''goals_scored'', PyInt 10)])"
  proof (elim exE conjE)
    fix d' player
    assume c: "clean_top_scorer [(''rk'', PyInt 1), (''top_team_scorer'', PyStr ''Messi,Ronaldo-10'')] = Inr d'"
      and p: "map_of d' ''top_team_scorer'' =
          Some (PyDict [(''player'', player), (''goals_scored'', PyInt 10)])"
    show ?thesis
      by (rule exI [of _ d'], rule exI [of _ player], intro conjI) (rule c p)+
  qed
qed

subsection \<open>Type coercion\<close>

lemma coerced_simps:
  "coerced (Some conv) None y \<longleftrightarrow> y = PyNone"
  "coerced (Some conv) (Some []) y \<longleftrightarrow> y = PyNone"
  "s \<noteq> [] \<Longrightarrow> coerced (Some conv) (Some s) y \<longleftrightarrow> conv s = Some y"
  "coerced None x y \<longleftrightarrow> y = cell_val x"
  by (simp_all add: coerced_def)

lemma convert_each_char:
  "(\<exists>vs. convert_each conv xs = Inr vs \<and> list_all2 (coerced (Some conv)) xs vs
        \<and> \<not> (\<exists>s. Some s \<in> set xs \<and> s \<noteq> [] \<and> conv s = None))
   \<or> (convert_each conv xs = Inl ValueError_conversion
        \<and> (\<exists>s. Some s \<in> set xs \<and> s \<noteq> [] \<and> conv s = None))"
proof (induction xs)
  case Nil
  then show ?case by simp
next
  case (Cons x xs)
  show ?case
  proof (cases x)
    case None
    then show ?thesis using Cons.IH by (auto simp: coerced_simps)
  next
    case (Some s)
    show ?thesis
    proof (cases "s = []")
      case True
      then show ?thesis using Cons.IH Some by (auto simp: coerced_simps)
    next
      case False
      show ?thesis
      proof (cases "conv s")
        case None
        then show ?thesis using Some False by auto
      next
        case (Some v)
        then show ?thesis using Cons.IH \<open>x = Some s\<close> False by (auto simp: coerced_simps)
      qed
    qed
  qed
qed

lemma column_char:
  "(\<exists>col'. (if k \<in> set int_keys then convert_list_from_str int_of_str py_float col ''int''
            else if k \<in> set float_keys then convert_list_from_str int_of_str py_float col ''float''
            else Inr (map cell_val col)) = Inr col'
        \<and> list_all2 (coerced (designated int_of_str py_float int_keys float_keys k)) col col'
        \<and> \<not> (\<exists>s conv. Some s \<in> set col \<and> s \<noteq> []
              \<and> designated int_of_str py_float int_keys float_keys k = Some conv \<and> conv s = None))
   \<or> ((if k \<in> set int_keys then convert_list_from_str int_of_str py_float col ''int''
        else if k \<in> set float_keys then convert_list_from_str int_of_str py_float col ''float''
        else Inr (map cell_val col)) = Inl ValueError_conversion
        \<and> (\<exists>s conv. Some s \<in> set col \<and> s \<noteq> []
              \<and> designated int_of_str py_float int_keys float_keys k = Some conv \<and> conv s = None))"
proof -
  have untouched: "list_all2 (coerced None) col (map cell_val col)"
    by (simp add: list_all2_conv_all_nth coerced_simps)
  show ?thesis
    using convert_each_char [of "int_builtin int_of_str" col] convert_each_char [of "float_builtin py_float" col] untouched
    by (auto simp: designated_def convert_list_from_str_def)
qed

lemma non_numeric_cell_Cons:
  "non_numeric_cell int_of_str py_float int_keys float_keys ((k, col) # rest) \<longleftrightarrow>
     (\<exists>s conv. Some s \<in> set col \<and> s \<noteq> []
         \<and> designated int_of_str py_float int_keys float_keys k = Some conv \<and> conv s = None)
     \<or> non_numeric_cell int_of_str py_float int_keys float_keys rest"
  unfolding non_numeric_cell_def by (simp, blast)

lemma convert_columns_char:
  "(\<exists>d'. convert_columns int_of_str py_float int_keys float_keys data_dict = Inr d'
        \<and> list_all2 (\<lambda>(k, col) (k', col'). k' = k
              \<and> list_all2 (coerced (designated int_of_str py_float int_keys float_keys k)) col col') data_dict d'
        \<and> \<not> non_numeric_cell int_of_str py_float int_keys float_keys data_dict)
   \<or> (convert_columns int_of_str py_float int_keys float_keys data_dict = Inl ValueError_conversion
        \<and> non_numeric_cell int_of_str py_float int_keys float_keys data_dict)"
proof (induction data_dict)
  case Nil
  then show ?case by (simp add: non_numeric_cell_def)
next
  case (Cons kc rest)
  obtain k col where kc: "kc = (k, col)" by (cases kc)
  from column_char [of k int_keys int_of_str py_float col float_keys]
  show ?case
  proof (elim disjE exE conjE)
    fix col'
    assume c: "(if k \<in> set int_keys then convert_list_from_str int_of_str py_float col ''int''
            else if k \<in> set float_keys then convert_list_from_str int_of_str py_float col ''float''
            else Inr (map cell_val col)) = Inr col'"
      and l: "list_all2 (coerced (designated int_of_str py_float int_keys float_keys k)) col col'"
      and n: "\<not> (\<exists>s conv. Some s \<in> set col \<and> s \<noteq> []
              \<and> designated int_of_str py_float int_keys float_keys k = Some conv \<and> conv s = None)"
    from Cons.IH show ?thesis
    proof (elim disjE exE conjE)
      fix d'
      assume "convert_columns int_of_str py_float int_keys float_keys rest = Inr d'"
        and "list_all2 (\<lambda>(k, col) (k', col'). k' = k
              \<and> list_all2 (coerced (designated int_of_str py_float int_keys float_keys k)) col col') rest d'"
        and "\<not> non_numeric_cell int_of_str py_float int_keys float_keys rest"
      then show ?thesis
        using c l n unfolding kc non_numeric_cell_Cons
        by (simp del: convert_columns.simps add: convert_columns.simps(2) [of int_of_str py_float int_keys float_keys k col rest])
    next
      assume "convert_columns int_of_str py_float int_keys float_keys rest = Inl ValueError_conversion"
        and "non_numeric_cell int_of_str py_float int_keys float_keys rest"
      then show ?thesis
        using c unfolding kc non_numeric_cell_Cons
        by (simp del: convert_columns.simps add: convert_columns.simps(2) [of int_of_str py_float int_keys float_keys k col rest])
    qed
  next
    fix s conv
    assume c: "(if k \<in> set int_keys then convert_list_from_str int_of_str py_float col ''int''
            else if k \<in> set float_keys then convert_list_from_str int_of_str py_float col ''float''
            else Inr (map cell_val col)) = Inl ValueError_conversion"
      and "Some s \<in> set col" "s \<noteq> []"
          "designated int_of_str py_float int_keys float_keys k = Some conv" "conv s = None"
    then have b: "\<exists>s conv. Some s \<in> set col \<and> s \<noteq> []
              \<and> designated int_of_str py_float int_keys float_keys k = Some conv \<and> conv s = None"
      by blast
    show ?thesis
      using c b unfolding kc non_numeric_cell_Cons
      by (simp del: convert_columns.simps add: convert_columns.simps(2) [of int_of_str py_float int_keys float_keys k col rest])
  qed
qed

text \<open>
  C6. Type coercion either returns the dictionary with the same keys in the same order, in
  which every column whose key is not in \<open>int_keys\<close> or \<open>float_keys\<close> is untouched and every
  cell of a designated column is null when it was null or the empty string, and the integer
  or float of its string otherwise; or it raises the conversion error, which it does exactly
  when a designated column holds a non-empty string that \<^verbatim>\<open>int\<close> (or \<^verbatim>\<open>float\<close>) rejects.
\<close>

theorem C6_coercion:
  "(\<exists>d'. convert_dict_dtypes int_of_str py_float data_dict int_keys float_keys = Inr d'
        \<and> list_all2 (\<lambda>(k, col) (k', col'). k' = k
              \<and> list_all2 (coerced (designated int_of_str py_float int_keys float_keys k)) col col') data_dict d'
        \<and> \<not> non_numeric_cell int_of_str py_float int_keys float_keys data_dict)
   \<or> (convert_dict_dtypes int_of_str py_float data_dict int_keys float_keys = Inl ValueError_conversion
        \<and> non_numeric_cell int_of_str py_float int_keys float_keys data_dict)"
  unfolding convert_dict_dtypes_def by (rule convert_columns_char)

lemma py_int_examples: "py_int ''3'' = Some 3" "py_int ''7'' = Some 7"
  by (simp_all add: py_int_def int_strip_def is_int_space_def max_str_digits_def digit_val_def)

theorem C6_coercion_witness:
  "convert_dict_dtypes py_int (\<lambda>s. None) coercion_example [''x''] [] =
     Inr [(''x'', [PyInt 3, PyNone, PyInt 7]), (''player'', [PyStr ''Kane'', PyStr '''', PyNone])]"
proof -
  have ok: "\<not> non_numeric_cell py_int (\<lambda>s. None) [''x''] [] coercion_example"
    by (auto simp: non_numeric_cell_def coercion_example_def designated_def int_builtin_def py_int_examples)
  from C6_coercion [of py_int "\<lambda>s. None" coercion_example "[''x'']" "[]"] ok
  obtain d' where r: "convert_dict_dtypes py_int (\<lambda>s. None) coercion_example [''x''] [] = Inr d'"
    and l: "list_all2 (\<lambda>(k, col) (k', col'). k' = k
              \<and> list_all2 (coerced (designated py_int (\<lambda>s. None) [''x''] [] k)) col col') coercion_example d'"
    by (elim disjE exE conjE) simp_all
  from l have "d' = [(''x'', [PyInt 3, PyNone, PyInt 7]), (''player'', [PyStr ''Kane'', PyStr '''', PyNone])]"
    by (auto simp: coercion_example_def list_all2_Cons1 designated_def coerced_simps int_builtin_def
        py_int_examples cell_val_def)
  with r show ?thesis by simp
qed

subsection \<open>Leagues of a country\<close>

lemma collect_Inl: "collect xs = Inl e \<Longrightarrow> Inl e \<in> set xs"
  by (induction xs) (auto split: sum.splits)

lemma convert_leagues_error:
  "convert_leagues_dict_dtypes py_float d = Inl e \<Longrightarrow> e = ValueError_conversion"
  using convert_columns_char [of py_int py_float "[''league_id'']" "[]" "map (\<lambda>(k, col). (k, map Some col)) d"]
  by (auto simp: convert_leagues_dict_dtypes_def)

lemma clean_leagues_loop_error:
  "clean_leagues_loop py_float d acc = Inl e \<Longrightarrow> e = ValueError_conversion"
proof (induction d arbitrary: acc)
  case Nil
  then show ?case by simp
next
  case (Cons kv d)
  obtain key v where kv: "kv = (key, v)" by (cases kv)
  show ?case
    using Cons.prems Cons.IH convert_leagues_error
    by (auto simp: kv split: option.splits sum.splits)
qed

lemma league_row_error: "league_row d i = Inl e \<Longrightarrow> e = IndexError"
  by (auto simp: league_row_def dest!: collect_Inl split: if_splits)

lemma league_type_entry_error: "league_type_entry key d = Inl e \<Longrightarrow> e = KeyError \<or> e = IndexError"
proof (cases "map_of d ''league_id''")
  case None
  then show "league_type_entry key d = Inl e \<Longrightarrow> e = KeyError \<or> e = IndexError"
    by (simp add: league_type_entry_def)
next
  case (Some ids)
  assume a: "league_type_entry key d = Inl e"
  then have "collect (map (league_row d) [0..<length ids]) = Inl e"
    using Some by (simp add: league_type_entry_def Let_def split: sum.splits)
  then have "Inl e \<in> set (map (league_row d) [0..<length ids])"
    by (rule collect_Inl)
  then obtain i where "league_row d i = Inl e" by auto
  then show "e = KeyError \<or> e = IndexError"
    using league_row_error by blast
qed

lemma change_league_dict_orientation_cases:
  "(\<exists>data. change_league_dict_orientation d = Inr [(''data'', PyList data)])
   \<or> change_league_dict_orientation d = Inl KeyError
   \<or> change_league_dict_orientation d = Inl IndexError"
proof (cases "collect (map (\<lambda>(key, league_sub_dict). league_type_entry key league_sub_dict) d)")
  case (Inl e)
  then have "Inl e \<in> set (map (\<lambda>(key, league_sub_dict). league_type_entry key league_sub_dict) d)"
    by (rule collect_Inl)
  then obtain key sub where "league_type_entry key sub = Inl e" by auto
  then have "e = KeyError \<or> e = IndexError" by (rule league_type_entry_error)
  then show ?thesis using Inl by (auto simp: change_league_dict_orientation_def)
next
  case (Inr data)
  then show ?thesis by (simp add: change_league_dict_orientation_def)
qed

lemma clean_leagues_data_cases:
  "(\<exists>data. clean_leagues_data py_float d = Inr [(''data'', PyList data)])
   \<or> clean_leagues_data py_float d = Inl KeyError
   \<or> clean_leagues_data py_float d = Inl IndexError
   \<or> clean_leagues_data py_float d = Inl ValueError_conversion"
proof (cases "clean_leagues_loop py_float d []")
  case (Inl e)
  then show ?thesis
    using clean_leagues_loop_error [OF Inl] by (simp add: clean_leagues_data_def)
next
  case (Inr c)
  then show ?thesis
    using change_league_dict_orientation_cases [of c] by (auto simp: clean_leagues_data_def)
qed

text \<open>
  C3. \<^verbatim>\<open>scrape_clean_data\<close> tests the values of the cleaned dictionary for \<^verbatim>\<open>None\<close>, but the
  cleaned dictionary is the re-oriented one, whose only value is the list under \<^verbatim>\<open>data\<close>: the
  domain error is never raised. When every league category is \<^verbatim>\<open>None\<close> the result is the
  dictionary with an empty \<^verbatim>\<open>data\<close> list, where the claim has the \<^verbatim>\<open>ValueError\<close>.
\<close>

theorem C3_domain_error_never_raised:
  "scrape_clean_data py_float leagues_data_dict \<noteq> Inl ValueError_country_code
   \<and> scrape_clean_data py_float no_leagues = Inr [(''data'', PyList [])]"
proof
  show "scrape_clean_data py_float leagues_data_dict \<noteq> Inl ValueError_country_code"
    using clean_leagues_data_cases [of py_float leagues_data_dict]
    by (auto simp: scrape_clean_data_def)
  show "scrape_clean_data py_float no_leagues = Inr [(''data'', PyList [])]"
    by (simp add: scrape_clean_data_def clean_leagues_data_def change_league_dict_orientation_def
        no_leagues_def)
qed

subsection \<open>Shoot-out scores in the goal columns\<close>

lemma space_not_digit: "is_space c \<Longrightarrow> \<not> is_digit c"
  by (auto simp: is_space_def is_digit_def)

lemma paren_classes:
  "\<not> is_digit CHR ''(''" "\<not> is_space CHR ''(''" "\<not> is_digit CHR '')''"
  by (simp_all add: is_digit_def is_space_def)

lemma takeWhile_run:
  "list_all P xs \<Longrightarrow> (ys = [] \<or> \<not> P (hd ys)) \<Longrightarrow> takeWhile P (xs @ ys) = xs"
  by (cases ys) (auto simp: list_all_iff takeWhile_append2 [of xs P])

lemma dropWhile_run:
  "list_all P xs \<Longrightarrow> (ys = [] \<or> \<not> P (hd ys)) \<Longrightarrow> dropWhile P (xs @ ys) = ys"
  by (cases ys) (auto simp: list_all_iff dropWhile_append2 [of xs P])

lemma match_shootout_here_exact:
  assumes "digit_seq x" "list_all is_space ws" "digit_seq y"
  shows "match_shootout_here (x @ ws @ ''('' @ y @ '')'' @ rest) = Some (x, y)"
proof -
  let ?t = "ws @ ''('' @ y @ '')'' @ rest"
  have h: "?t = [] \<or> \<not> is_digit (hd ?t)"
    using assms(2) by (cases ws) (auto simp: paren_classes space_not_digit)
  have x1: "takeWhile is_digit (x @ ?t) = x"
    using assms(1) h by (intro takeWhile_run) (auto simp: digit_seq_def)
  have x2: "dropWhile is_digit (x @ ?t) = ?t"
    using assms(1) h by (intro dropWhile_run) (auto simp: digit_seq_def)
  have w: "dropWhile is_space ?t = ''('' @ y @ '')'' @ rest"
    using assms(2) by (intro dropWhile_run) (auto simp: paren_classes)
  have y1: "takeWhile is_digit (y @ '')'' @ rest) = y"
    using assms(3) by (intro takeWhile_run) (auto simp: digit_seq_def paren_classes)
  have y2: "dropWhile is_digit (y @ '')'' @ rest) = '')'' @ rest"
    using assms(3) by (intro dropWhile_run) (auto simp: digit_seq_def paren_classes)
  have nx: "x \<noteq> []" and ny: "y \<noteq> []"
    using assms(1,3) by (auto simp: digit_seq_def)
  show ?thesis
    unfolding match_shootout_here_def Let_def x1 x2 w
    using nx ny y1 y2 by simp
qed

lemma match_shootout_here_form:
  assumes "match_shootout_here s = Some (x, y)"
  shows "\<exists>ws rest. s = x @ ws @ ''('' @ y @ '')'' @ rest
           \<and> digit_seq x \<and> list_all is_space ws \<and> digit_seq y"
proof -
  let ?r1 = "dropWhile is_digit s"
  let ?r2 = "dropWhile is_space ?r1"
  have x: "x = takeWhile is_digit s" and xne: "takeWhile is_digit s \<noteq> []"
    using assms by (auto simp: match_shootout_here_def Let_def split: if_splits list.splits)
  obtain r where r2: "?r2 = CHR ''('' # r"
    using assms by (auto simp: match_shootout_here_def Let_def split: if_splits list.splits)
  have y: "y = takeWhile is_digit r" and yne: "takeWhile is_digit r \<noteq> []"
    using assms r2 by (auto simp: match_shootout_here_def Let_def split: if_splits list.splits)
  obtain r' where r4: "dropWhile is_digit r = CHR '')'' # r'"
    using assms r2 by (auto simp: match_shootout_here_def Let_def split: if_splits list.splits)
  have "s = takeWhile is_digit s @ ?r1" by simp
  also have "?r1 = takeWhile is_space ?r1 @ ?r2" by simp
  also have "?r2 = CHR ''('' # (takeWhile is_digit r @ dropWhile is_digit r)" using r2 by simp
  finally have "s = x @ takeWhile is_space ?r1 @ ''('' @ y @ '')'' @ r'"
    using x y r4 by simp
  moreover have "digit_seq x" "digit_seq y"
    using x xne y yne by (auto simp: digit_seq_def list_all_iff dest: set_takeWhileD)
  moreover have "list_all is_space (takeWhile is_space ?r1)"
    by (auto simp: list_all_iff dest: set_takeWhileD)
  ultimately show ?thesis by blast
qed

lemma search_shootout_form:
  "search_shootout s = Some (x, y) \<Longrightarrow>
   \<exists>pre ws rest. s = pre @ x @ ws @ ''('' @ y @ '')'' @ rest
           \<and> digit_seq x \<and> list_all is_space ws \<and> digit_seq y"
proof (induction s)
  case Nil
  then show ?case by simp
next
  case (Cons c cs)
  show ?case
  proof (cases "match_shootout_here (c # cs)")
    case None
    then have "search_shootout cs = Some (x, y)" using Cons.prems by simp
    from Cons.IH [OF this] obtain pre ws rest where
      "cs = pre @ x @ ws @ ''('' @ y @ '')'' @ rest" "digit_seq x" "list_all is_space ws" "digit_seq y"
      by blast
    then have "c # cs = (c # pre) @ x @ ws @ ''('' @ y @ '')'' @ rest
        \<and> digit_seq x \<and> list_all is_space ws \<and> digit_seq y"
      by simp
    then show ?thesis by blast
  next
    case (Some m)
    then have "match_shootout_here (c # cs) = Some (x, y)" using Cons.prems by simp
    from match_shootout_here_form [OF this] obtain ws rest where
      "c # cs = [] @ x @ ws @ ''('' @ y @ '')'' @ rest \<and> digit_seq x \<and> list_all is_space ws \<and> digit_seq y"
      by auto
    then show ?thesis by blast
  qed
qed

lemma clean_gf_ga_exact:
  assumes "digit_seq x" "list_all is_space ws" "digit_seq y"
  shows "clean_gf_ga (x @ ws @ ''('' @ y @ '')'') = x"
proof -
  obtain c cs where x: "x = c # cs" using assms(1) by (cases x) (auto simp: digit_seq_def)
  have "match_shootout_here (x @ ws @ ''('' @ y @ '')'' @ []) = Some (x, y)"
    by (rule match_shootout_here_exact [OF assms])
  then have "search_shootout (x @ ws @ ''('' @ y @ '')'') = Some (x, y)"
    by (simp add: x)
  then show ?thesis by (simp add: clean_gf_ga_def)
qed

lemma clean_gf_ga_unchanged:
  assumes "\<not> (\<exists>pre x ws y post. v = pre @ x @ ws @ ''('' @ y @ '')'' @ post
             \<and> digit_seq x \<and> list_all is_space ws \<and> digit_seq y)"
  shows "clean_gf_ga v = v"
proof (cases "search_shootout v")
  case None
  then show ?thesis by (simp add: clean_gf_ga_def)
next
  case (Some m)
  obtain x y where "m = (x, y)" by (cases m)
  then have "search_shootout v = Some (x, y)" using Some by simp
  from search_shootout_form [OF this] assms show ?thesis by blast
qed

lemma collect_str_method:
  "collect (map (str_method err f) (map PyStr ss)) = Inr (map f ss)"
  by (induction ss) (simp_all add: str_method_def)

lemma collect_str_method_comp:
  "collect (map (str_method err f \<circ> PyStr) ss) = Inr (map f ss)"
  using collect_str_method [of err f ss] by (simp add: comp_def)

lemma map_of_str_columns:
  "map_of (str_columns raw) c = map_option (map PyStr) (map_of raw c)"
  by (induction raw) (auto simp: str_columns_def)

lemma clean_columns_loop_strings:
  assumes "distinct (map fst trip)"
    and "\<forall>c err f. (c, err, f) \<in> set trip \<longrightarrow> (\<forall>col. map_of d c = Some col \<longrightarrow> (\<exists>ss. col = map PyStr ss))"
  shows "\<exists>d'. clean_columns_loop (map (\<lambda>(c, err, f). (c, str_method err f)) trip) d = Inr d'
     \<and> (\<forall>t. t \<notin> fst ` set trip \<longrightarrow> map_of d' t = map_of d t)
     \<and> (\<forall>t err f ss. (t, err, f) \<in> set trip \<and> map_of d t = Some (map PyStr ss)
            \<longrightarrow> map_of d' t = Some (map f ss))
     \<and> (\<forall>t. map_of d t = None \<longrightarrow> map_of d' t = None)"
  using assms
proof (induction trip arbitrary: d)
  case Nil
  then show ?case by simp
next
  case (Cons a trip)
  obtain c err f where a: "a = (c, err, f)" by (cases a)
  have dist: "distinct (map fst trip)" and cnotin: "c \<notin> fst ` set trip"
    using Cons.prems(1) a by auto
  show ?case
  proof (cases "map_of d c")
    case None
    have pre: "\<forall>c err f. (c, err, f) \<in> set trip \<longrightarrow>
        (\<forall>col. map_of d c = Some col \<longrightarrow> (\<exists>ss. col = map PyStr ss))"
      using Cons.prems(2) by auto
    from Cons.IH [OF dist pre] obtain d' where
      r: "clean_columns_loop (map (\<lambda>(c, err, f). (c, str_method err f)) trip) d = Inr d'"
      and o: "\<forall>t. t \<notin> fst ` set trip \<longrightarrow> map_of d' t = map_of d t"
      and s: "\<forall>t err f ss. (t, err, f) \<in> set trip \<and> map_of d t = Some (map PyStr ss)
            \<longrightarrow> map_of d' t = Some (map f ss)"
      and n: "\<forall>t. map_of d t = None \<longrightarrow> map_of d' t = None"
      by blast
    have "clean_columns_loop (map (\<lambda>(c, err, f). (c, str_method err f)) (a # trip)) d = Inr d'"
      using r None by (simp add: a)
    moreover have "\<forall>t. t \<notin> fst ` set (a # trip) \<longrightarrow> map_of d' t = map_of d t"
      using o by simp
    moreover have "\<forall>t err f ss. (t, err, f) \<in> set (a # trip) \<and> map_of d t = Some (map PyStr ss)
            \<longrightarrow> map_of d' t = Some (map f ss)"
      using s None a by auto
    ultimately show ?thesis using n by blast
  next
    case (Some col)
    have "(c, err, f) \<in> set (a # trip)" using a by simp
    from Cons.prems(2) [rule_format, OF this Some]
    obtain ss where col: "col = map PyStr ss" ..
    let ?d1 = "AList.update c (map f ss) d"
    have m1: "map_of ?d1 t = (if t = c then Some (map f ss) else map_of d t)" for t
      by (simp add: update_conv')
    have pre: "\<forall>c' err f. (c', err, f) \<in> set trip \<longrightarrow>
        (\<forall>col. map_of ?d1 c' = Some col \<longrightarrow> (\<exists>ss. col = map PyStr ss))"
    proof (intro allI impI)
      fix c' err' f' col'
      assume i: "(c', err', f') \<in> set trip" and l: "map_of ?d1 c' = Some col'"
      have "c' \<noteq> c" using i cnotin by force
      then have "map_of d c' = Some col'" using l m1 by simp
      then show "\<exists>ss. col' = map PyStr ss" using Cons.prems(2) i by auto
    qed
    from Cons.IH [OF dist pre] obtain d' where
      r: "clean_columns_loop (map (\<lambda>(c, err, f). (c, str_method err f)) trip) ?d1 = Inr d'"
      and o: "\<forall>t. t \<notin> fst ` set trip \<longrightarrow> map_of d' t = map_of ?d1 t"
      and s: "\<forall>t err f ss. (t, err, f) \<in> set trip \<and> map_of ?d1 t = Some (map PyStr ss)
            \<longrightarrow> map_of d' t = Some (map f ss)"
      and n: "\<forall>t. map_of ?d1 t = None \<longrightarrow> map_of d' t = None"
      by blast
    have r': "clean_columns_loop (map (\<lambda>(c, err, f). (c, str_method err f)) (a # trip)) d = Inr d'"
      using r Some col by (simp add: a collect_str_method_comp)
    have o': "\<forall>t. t \<notin> fst ` set (a # trip) \<longrightarrow> map_of d' t = map_of d t"
      using o m1 a by auto
    have s': "\<forall>t err' f' ss'. (t, err', f') \<in> set (a # trip) \<and> map_of d t = Some (map PyStr ss')
            \<longrightarrow> map_of d' t = Some (map f' ss')"
    proof (intro allI impI)
      fix t err' f' ss'
      assume h: "(t, err', f') \<in> set (a # trip) \<and> map_of d t = Some (map PyStr ss')"
      show "map_of d' t = Some (map f' ss')"
      proof (cases "t = c")
        case True
        then have "(t, err', f') = a"
          using h Cons.prems(1) a by (auto simp: image_iff)
        moreover have "ss' = ss"
        proof -
          have "map PyStr ss' = map PyStr ss" using h True Some col by simp
          moreover have "inj PyStr" by (simp add: inj_on_def)
          ultimately show ?thesis by (simp add: inj_map_eq_map)
        qed
        moreover have "map_of d' c = Some (map f ss)"
          using o cnotin m1 by simp
        ultimately show ?thesis using True a by simp
      next
        case False
        then have "(t, err', f') \<in> set trip" using h a by auto
        moreover have "map_of ?d1 t = Some (map PyStr ss')" using h False m1 by simp
        ultimately show ?thesis using s by blast
      qed
    qed
    have n': "\<forall>t. map_of d t = None \<longrightarrow> map_of d' t = None"
    proof (intro allI impI)
      fix t
      assume tn: "map_of d t = None"
      then have "t \<noteq> c" using Some by auto
      then have "map_of ?d1 t = None" using tn m1 by simp
      then show "map_of d' t = None" using n by blast
    qed
    show ?thesis using r' o' s' n' by blast
  qed
qed

lemma clean_stat_dict_columns_strings:
  "\<exists>d'. clean_stat_dict_columns (str_columns raw) = Inr d'
     \<and> map_of d' ''gf'' = map_option (map (\<lambda>s. PyStr (clean_gf_ga s))) (map_of raw ''gf'')
     \<and> map_of d' ''ga'' = map_option (map (\<lambda>s. PyStr (clean_gf_ga s))) (map_of raw ''ga'')"
proof -
  define trip where "trip =
     [(''positions'', AttributeError, clean_player_position),
      (''age'', AttributeError, \<lambda>x. PyStr (clean_player_age x)),
      (''min'', AttributeError, \<lambda>x. PyStr (clean_player_min x)),
      (''opponent'', TypeError, \<lambda>x. PyStr (clean_team_name x)),
      (''squad'', TypeError, \<lambda>x. PyStr (clean_team_name x)),
      (''gf'', TypeError, \<lambda>x. PyStr (clean_gf_ga x)),
      (''ga'', TypeError, \<lambda>x. PyStr (clean_gf_ga x)),
      (''team_name'', TypeError, \<lambda>x. PyStr (clean_team_name x))]"
  have cm: "cleaning_map = map (\<lambda>(c, err, f). (c, str_method err f)) trip"
    by (simp add: cleaning_map_def trip_def)
  have dist: "distinct (map fst trip)"
    by (simp add: trip_def)
  have strs: "\<forall>c err f. (c, err, f) \<in> set trip \<longrightarrow>
      (\<forall>col. map_of (str_columns raw) c = Some col \<longrightarrow> (\<exists>ss. col = map PyStr ss))"
    by (auto simp: map_of_str_columns)
  have gf: "(''gf'', TypeError, \<lambda>x. PyStr (clean_gf_ga x)) \<in> set trip"
    and ga: "(''ga'', TypeError, \<lambda>x. PyStr (clean_gf_ga x)) \<in> set trip"
    by (simp_all add: trip_def)
  from clean_columns_loop_strings [OF dist strs] obtain d' where
    r: "clean_columns_loop (map (\<lambda>(c, err, f). (c, str_method err f)) trip) (str_columns raw) = Inr d'"
    and s: "\<forall>t err f ss. (t, err, f) \<in> set trip \<and> map_of (str_columns raw) t = Some (map PyStr ss)
            \<longrightarrow> map_of d' t = Some (map f ss)"
    and n: "\<forall>t. map_of (str_columns raw) t = None \<longrightarrow> map_of d' t = None"
    by blast
  have col: "map_of d' t = map_option (map f) (map_of raw t)" if "(t, err, f) \<in> set trip" for t err f
  proof (cases "map_of raw t")
    case None
    then have "map_of (str_columns raw) t = None" by (simp add: map_of_str_columns)
    then show ?thesis using n None by simp
  next
    case (Some ss)
    then have "map_of (str_columns raw) t = Some (map PyStr ss)" by (simp add: map_of_str_columns)
    then have "map_of d' t = Some (map f ss)" using s that by blast
    then show ?thesis using Some by simp
  qed
  have "clean_stat_dict_columns (str_columns raw) = Inr d'"
    using r by (simp add: clean_stat_dict_columns_def cm)
  then show ?thesis using col [OF gf] col [OF ga] by blast
qed

lemma shootout_at_match:
  assumes "shootout_at v n x"
  shows "n < length v \<and> (\<exists>y. match_shootout_here (drop n v) = Some (x, y))"
proof -
  from assms obtain pre ws y post where
    v: "v = pre @ x @ ws @ ''('' @ y @ '')'' @ post" and n: "length pre = n"
    and d: "digit_seq x" "list_all is_space ws" "digit_seq y"
    unfolding shootout_at_def by (elim exE conjE)
  have "drop n v = x @ ws @ ''('' @ y @ '')'' @ post" using v n by simp
  then have m: "match_shootout_here (drop n v) = Some (x, y)"
    using match_shootout_here_exact [OF d, of post] by simp
  have "n < length v" using v n d(1) by (auto simp: digit_seq_def)
  then show ?thesis using m by (intro conjI exI [of _ y])
qed

lemma match_shootout_at:
  assumes "n < length v" "match_shootout_here (drop n v) = Some (x, y)"
  shows "shootout_at v n x"
proof -
  from match_shootout_here_form [OF assms(2)] obtain ws rest where
    f: "drop n v = x @ ws @ ''('' @ y @ '')'' @ rest"
    and d: "digit_seq x" "list_all is_space ws" "digit_seq y"
    by (elim exE conjE)
  have "v = take n v @ drop n v" by simp
  then have v: "v = take n v @ x @ ws @ ''('' @ y @ '')'' @ rest" unfolding f .
  have l: "length (take n v) = n" using assms(1) by simp
  show ?thesis unfolding shootout_at_def
    by (rule exI [of _ "take n v"], rule exI [of _ ws], rule exI [of _ y], rule exI [of _ rest])
       (intro conjI v l d)
qed

lemma shootout_at_unique: "shootout_at v n x \<Longrightarrow> shootout_at v n x' \<Longrightarrow> x' = x"
  using shootout_at_match [of v n x] shootout_at_match [of v n x'] by auto

lemma search_shootout_None:
  "search_shootout s = None \<Longrightarrow> n < length s \<Longrightarrow> match_shootout_here (drop n s) = None"
proof (induction s arbitrary: n)
  case Nil
  then show ?case by simp
next
  case (Cons c cs)
  from Cons.prems(1) have h: "match_shootout_here (c # cs) = None" and t: "search_shootout cs = None"
    by (simp_all split: option.splits)
  show ?case
  proof (cases n)
    case 0
    then show ?thesis using h by simp
  next
    case (Suc k)
    then show ?thesis using Cons.IH [OF t, of k] Cons.prems(2) by simp
  qed
qed

lemma search_shootout_Some:
  "search_shootout s = Some m \<Longrightarrow>
   \<exists>n<length s. match_shootout_here (drop n s) = Some m
        \<and> (\<forall>k<n. match_shootout_here (drop k s) = None)"
proof (induction s)
  case Nil
  then show ?case by simp
next
  case (Cons c cs)
  show ?case
  proof (cases "match_shootout_here (c # cs)")
    case None
    then have "search_shootout cs = Some m" using Cons.prems by simp
    from Cons.IH [OF this] obtain n where n: "n < length cs"
      and m: "match_shootout_here (drop n cs) = Some m"
      and e: "\<forall>k<n. match_shootout_here (drop k cs) = None"
      by (elim exE conjE)
    have "\<forall>k<Suc n. match_shootout_here (drop k (c # cs)) = None"
    proof (intro allI impI)
      fix k assume "k < Suc n"
      then show "match_shootout_here (drop k (c # cs)) = None"
        using None e by (cases k) simp_all
    qed
    then show ?thesis using n m by (intro exI [of _ "Suc n"]) simp
  next
    case (Some m')
    then have "match_shootout_here (drop 0 (c # cs)) = Some m" using Cons.prems by simp
    then show ?thesis by (intro exI [of _ 0]) simp
  qed
qed

lemma clean_gf_ga_leftmost:
  "(\<exists>n x. shootout_at v n x \<and> (\<forall>m<n. \<forall>x'. \<not> shootout_at v m x') \<and> clean_gf_ga v = x)
   \<or> ((\<forall>n x. \<not> shootout_at v n x) \<and> clean_gf_ga v = v)"
proof (cases "search_shootout v")
  case None
  have "\<not> shootout_at v n x" for n x
    using shootout_at_match [of v n x] search_shootout_None [OF None, of n] by auto
  moreover have "clean_gf_ga v = v" using None by (simp add: clean_gf_ga_def)
  ultimately show ?thesis by simp
next
  case (Some m)
  obtain x y where m: "m = (x, y)" by (cases m)
  from search_shootout_Some [OF Some] obtain n where n: "n < length v"
    and h: "match_shootout_here (drop n v) = Some (x, y)"
    and e: "\<forall>k<n. match_shootout_here (drop k v) = None"
    unfolding m by (elim exE conjE)
  have a: "shootout_at v n x" by (rule match_shootout_at [OF n h])
  have b: "\<forall>k<n. \<forall>x'. \<not> shootout_at v k x'"
  proof (intro allI impI)
    fix k x' assume "k < n"
    then have "match_shootout_here (drop k v) = None" using e by simp
    then show "\<not> shootout_at v k x'" using shootout_at_match [of v k x'] by auto
  qed
  have c: "clean_gf_ga v = x" using Some m by (simp add: clean_gf_ga_def)
  show ?thesis by (rule disjI1, rule exI [of _ n], rule exI [of _ x]) (intro conjI a b c)
qed

text \<open>
  A value that is not of the form X (Y) is not always returned unchanged:
  \<^verbatim>\<open>x1 (4)\<close> and \<^verbatim>\<open>1 (4)x\<close> are not a digit sequence, optional whitespace and a parenthesised
  digit sequence, and \<^verbatim>\<open>clean_gf_ga\<close> returns \<^verbatim>\<open>1\<close> for both, because the pattern is searched
  for inside the value.
\<close>

theorem C10_value_holding_shootout_counterexample:
  "clean_gf_ga ''x1 (4)'' = ''1'' \<and> clean_gf_ga ''1 (4)x'' = ''1''
   \<and> \<not> (\<exists>x ws y. ''x1 (4)'' = x @ ws @ ''('' @ y @ '')''
           \<and> digit_seq x \<and> list_all is_space ws \<and> digit_seq y)
   \<and> \<not> (\<exists>x ws y. ''1 (4)x'' = x @ ws @ ''('' @ y @ '')''
           \<and> digit_seq x \<and> list_all is_space ws \<and> digit_seq y)"
proof -
  have a: "clean_gf_ga ''x1 (4)'' = ''1''" and b: "clean_gf_ga ''1 (4)x'' = ''1''"
    by code_simp+
  have c: "\<not> (\<exists>x ws y. ''x1 (4)'' = x @ ws @ ''('' @ y @ '')''
           \<and> digit_seq x \<and> list_all is_space ws \<and> digit_seq y)"
  proof
    assume "\<exists>x ws y. ''x1 (4)'' = x @ ws @ ''('' @ y @ '')''
           \<and> digit_seq x \<and> list_all is_space ws \<and> digit_seq y"
    then obtain x ws y where e: "''x1 (4)'' = x @ ws @ ''('' @ y @ '')''" and d: "digit_seq x"
      by (elim exE conjE)
    from d obtain c cs where x: "x = c # cs" and "is_digit c"
      by (cases x) (auto simp: digit_seq_def)
    then show False using e by (auto simp: is_digit_def)
  qed
  have d: "\<not> (\<exists>x ws y. ''1 (4)x'' = x @ ws @ ''('' @ y @ '')''
           \<and> digit_seq x \<and> list_all is_space ws \<and> digit_seq y)"
  proof
    assume "\<exists>x ws y. ''1 (4)x'' = x @ ws @ ''('' @ y @ '')''
           \<and> digit_seq x \<and> list_all is_space ws \<and> digit_seq y"
    then obtain x ws y where e: "''1 (4)x'' = x @ ws @ ''('' @ y @ '')''"
      by (elim exE conjE)
    have "last (x @ ws @ ''('' @ y @ '')'') = CHR '')''" by simp
    then have "last ''1 (4)x'' = CHR '')''" unfolding e [symmetric] .
    then show False by simp
  qed
  show ?thesis by (intro conjI a b c d)
qed

text \<open>
  C10 (as amended). \<^verbatim>\<open>clean_gf_ga\<close> searches the value: a value that holds a text of the form
  X (Y) (a digit sequence, optional whitespace and a parenthesised digit sequence) is replaced
  by the X of the leftmost such text, whatever stands around it, and a value that holds no
  such text is returned unchanged; so a value that is exactly X (Y) becomes X.
  \<^verbatim>\<open>clean_stat_dict_columns\<close> applies it to every value of the \<open>gf\<close> and \<open>ga\<close> columns of a
  raw column mapping.
\<close>

theorem C10_leftmost_shootout_score:
  "((\<exists>n x. shootout_at v n x \<and> (\<forall>m<n. \<forall>x'. \<not> shootout_at v m x') \<and> clean_gf_ga v = x)
      \<or> ((\<forall>n x. \<not> shootout_at v n x) \<and> clean_gf_ga v = v))
   \<and> (digit_seq x0 \<and> list_all is_space ws \<and> digit_seq y \<longrightarrow>
        clean_gf_ga (x0 @ ws @ ''('' @ y @ '')'') = x0)
   \<and> (\<exists>d'. clean_stat_dict_columns (str_columns raw) = Inr d'
        \<and> map_of d' ''gf'' = map_option (map (\<lambda>s. PyStr (clean_gf_ga s))) (map_of raw ''gf'')
        \<and> map_of d' ''ga'' = map_option (map (\<lambda>s. PyStr (clean_gf_ga s))) (map_of raw ''ga''))"
  using clean_gf_ga_exact [of x0 ws y]
  by (intro conjI impI clean_gf_ga_leftmost clean_stat_dict_columns_strings) simp_all

theorem C10_leftmost_shootout_witness:
  "shootout_at ''x1 (4)'' 1 ''1'' \<and> clean_gf_ga ''x1 (4)'' = ''1''
   \<and> clean_gf_ga ''1 (4)'' = ''1'' \<and> clean_gf_ga ''2'' = ''2''
   \<and> (\<exists>d'. clean_stat_dict_columns (str_columns schedule_example) = Inr d'
        \<and> map_of d' ''gf'' = Some [PyStr ''1'', PyStr ''2'']
        \<and> map_of d' ''ga'' = Some [PyStr ''1'', PyStr ''0''])"
proof -
  have d1: "digit_seq ''1''" and d4: "digit_seq ''4''" and d5: "digit_seq ''5''"
    and sp: "list_all is_space '' ''"
    by (simp_all add: digit_seq_def is_digit_def is_space_def)
  have at: "shootout_at ''x1 (4)'' 1 ''1''"
    unfolding shootout_at_def
    by (rule exI [of _ "''x''"], rule exI [of _ "'' ''"], rule exI [of _ "''4''"], rule exI [of _ "''''"])
       (simp add: d1 d4 is_space_def)
  have m0: "match_shootout_here ''x1 (4)'' = None" by code_simp
  have xv: "clean_gf_ga ''x1 (4)'' = ''1''"
  proof -
    from C10_leftmost_shootout_score [of "''x1 (4)''", THEN conjunct1] at
    obtain n x where n: "shootout_at ''x1 (4)'' n x"
      and e: "\<forall>m<n. \<forall>x'. \<not> shootout_at ''x1 (4)'' m x'"
      and c: "clean_gf_ga ''x1 (4)'' = x"
      by (elim disjE exE conjE) simp_all
    have "\<not> 1 < n" using e at by auto
    moreover have "n \<noteq> 0" using shootout_at_match [OF n] m0 by (cases n) simp_all
    ultimately have "n = 1" by simp
    then have "x = ''1''" using shootout_at_unique [OF n, of "''1''"] at by simp
    then show ?thesis using c by simp
  qed
  have a: "clean_gf_ga ''1 (4)'' = ''1''"
    using C10_leftmost_shootout_score [of _ "''1''" "'' ''" "''4''", THEN conjunct2, THEN conjunct1]
      d1 d4 sp by simp
  have a': "clean_gf_ga ''1 (5)'' = ''1''"
    using C10_leftmost_shootout_score [of _ "''1''" "'' ''" "''5''", THEN conjunct2, THEN conjunct1]
      d1 d5 sp by simp
  have no: "CHR ''('' \<notin> set v \<Longrightarrow> \<not> shootout_at v n x" for v n x
    unfolding shootout_at_def by auto
  have b: "clean_gf_ga ''2'' = ''2''"
    using C10_leftmost_shootout_score [of "''2''", THEN conjunct1] no [of "''2''"] by auto
  have b': "clean_gf_ga ''0'' = ''0''"
    using C10_leftmost_shootout_score [of "''0''", THEN conjunct1] no [of "''0''"] by auto
  have gf: "map_of schedule_example ''gf'' = Some [''1 (4)'', ''2'']"
    and ga: "map_of schedule_example ''ga'' = Some [''1 (5)'', ''0'']"
    by (simp_all add: schedule_example_def)
  from C10_leftmost_shootout_score [of _ _ _ _ schedule_example, THEN conjunct2, THEN conjunct2]
  obtain d' where "clean_stat_dict_columns (str_columns schedule_example) = Inr d'"
    and "map_of d' ''gf'' = map_option (map (\<lambda>s. PyStr (clean_gf_ga s))) (map_of schedule_example ''gf'')"
    and "map_of d' ''ga'' = map_option (map (\<lambda>s. PyStr (clean_gf_ga s))) (map_of schedule_example ''ga'')"
    by (elim exE conjE)
  then have "clean_stat_dict_columns (str_columns schedule_example) = Inr d'
        \<and> map_of d' ''gf'' = Some [PyStr ''1'', PyStr ''2'']
        \<and> map_of d' ''ga'' = Some [PyStr ''1'', PyStr ''0'']"
    unfolding gf ga by (simp add: a a' b b')
  then show ?thesis using at xv a b by (intro conjI exI [of _ d']) simp_all
qed

subsection \<open>Reassembly of the statistics categories\<close>

lemma stat_loop_meta:
  "distinct (map fst cols) \<Longrightarrow> stat_loop i meta cols (md, sd, used) = (md', sd', used') \<Longrightarrow>
   map_of md' s =
     (if s \<in> set meta
      then (case map_of cols s of Some col \<Rightarrow> Some (cell i col) | None \<Rightarrow> map_of md s)
      else map_of md s)"
proof (induction cols arbitrary: md sd used)
  case Nil
  then show ?case by (simp split: option.splits)
next
  case (Cons a cols)
  obtain t col where a: "a = (t, col)" by (cases a)
  have d: "distinct (map fst cols)" and tn: "map_of cols t = None"
    using Cons.prems(1) a by (auto simp: map_of_eq_None_iff)
  show ?case
  proof (cases "t \<in> set meta")
    case True
    then have "stat_loop i meta cols (AList.update t (cell i col) md, sd, used) = (md', sd', used')"
      using Cons.prems(2) a by (simp add: cell_def)
    from Cons.IH [OF d this] show ?thesis
      using True tn a by (auto simp: update_conv' split: option.splits)
  next
    case False
    then obtain sd1 used1 where "stat_loop i meta cols (md, sd1, used1) = (md', sd', used')"
      using Cons.prems(2) a by (auto split: if_splits)
    from Cons.IH [OF d this] show ?thesis
      using False a by (auto split: option.splits)
  qed
qed

lemma stat_loop_stats:
  "distinct (map fst cols) \<Longrightarrow> stat_loop i meta cols (md, sd, used) = (md', sd', used') \<Longrightarrow>
   map_of sd' s =
     (if s \<in> set meta \<or> s \<in> set used then map_of sd s
      else (case map_of cols s of Some col \<Rightarrow> Some (cell i col) | None \<Rightarrow> map_of sd s))"
proof (induction cols arbitrary: md sd used)
  case Nil
  then show ?case by (simp split: option.splits)
next
  case (Cons a cols)
  obtain t col where a: "a = (t, col)" by (cases a)
  have d: "distinct (map fst cols)" and tn: "map_of cols t = None"
    using Cons.prems(1) a by (auto simp: map_of_eq_None_iff)
  consider (m) "t \<in> set meta" | (u) "t \<notin> set meta" "t \<in> set used"
    | (v) "t \<notin> set meta" "t \<notin> set used" "i < length col"
    | (n) "t \<notin> set meta" "t \<notin> set used" "\<not> i < length col"
    by blast
  then show ?case
  proof cases
    case m
    then have "stat_loop i meta cols (AList.update t (cell i col) md, sd, used) = (md', sd', used')"
      using Cons.prems(2) a by (simp add: cell_def)
    from Cons.IH [OF d this] show ?thesis
      using m a by (auto split: option.splits)
  next
    case u
    then have "stat_loop i meta cols (md, sd, used) = (md', sd', used')"
      using Cons.prems(2) a by simp
    from Cons.IH [OF d this] show ?thesis
      using u a by (auto split: option.splits)
  next
    case v
    then have "stat_loop i meta cols (md, AList.update t (col ! i) sd, used @ [t]) = (md', sd', used')"
      using Cons.prems(2) a by simp
    from Cons.IH [OF d this] show ?thesis
      using v a tn by (auto simp: update_conv' cell_def split: option.splits)
  next
    case n
    then have "stat_loop i meta cols (md, AList.update t PyNone sd, used) = (md', sd', used')"
      using Cons.prems(2) a by simp
    from Cons.IH [OF d this] show ?thesis
      using n a tn by (auto simp: update_conv' cell_def split: option.splits)
  qed
qed

lemma stat_loop_used:
  "distinct (map fst cols) \<Longrightarrow> stat_loop i meta cols (md, sd, used) = (md', sd', used') \<Longrightarrow>
   set used' = set used \<union> {s. s \<notin> set meta \<and> (\<exists>col. map_of cols s = Some col \<and> i < length col)}"
proof (induction cols arbitrary: md sd used)
  case Nil
  then show ?case by simp
next
  case (Cons a cols)
  obtain t col where a: "a = (t, col)" by (cases a)
  have d: "distinct (map fst cols)" and tn: "map_of cols t = None"
    using Cons.prems(1) a by (auto simp: map_of_eq_None_iff)
  consider (m) "t \<in> set meta" | (u) "t \<notin> set meta" "t \<in> set used"
    | (v) "t \<notin> set meta" "t \<notin> set used" "i < length col"
    | (n) "t \<notin> set meta" "t \<notin> set used" "\<not> i < length col"
    by blast
  then show ?case
  proof cases
    case m
    then have "stat_loop i meta cols (AList.update t (cell i col) md, sd, used) = (md', sd', used')"
      using Cons.prems(2) a by (simp add: cell_def)
    from Cons.IH [OF d this] show ?thesis
      using m a by auto
  next
    case u
    then have "stat_loop i meta cols (md, sd, used) = (md', sd', used')"
      using Cons.prems(2) a by simp
    from Cons.IH [OF d this] show ?thesis
      using u a tn by auto
  next
    case v
    then have "stat_loop i meta cols (md, AList.update t (col ! i) sd, used @ [t]) = (md', sd', used')"
      using Cons.prems(2) a by simp
    from Cons.IH [OF d this] show ?thesis
      using v a tn by auto
  next
    case n
    then have "stat_loop i meta cols (md, AList.update t PyNone sd, used) = (md', sd', used')"
      using Cons.prems(2) a by simp
    from Cons.IH [OF d this] show ?thesis
      using n a tn by auto
  qed
qed

lemma stat_id_loop_append:
  "stat_id_loop i meta (xs @ ys) s = stat_id_loop i meta ys (stat_id_loop i meta xs s)"
proof (induction xs arbitrary: s)
  case Nil
  then show ?case by simp
next
  case (Cons a xs)
  obtain c cols where a: "a = (c, cols)" by (cases a)
  obtain md st used where s: "s = (md, st, used)" by (cases s)
  obtain md' sd used' where l: "stat_loop i meta cols (md, [], used) = (md', sd, used')"
    by (cases "stat_loop i meta cols (md, [], used)")
  show ?case
    by (simp add: a s l Cons.IH)
qed

lemma stat_id_loop_step:
  "stat_loop i meta cols (md, [], used) = (md', sd, used') \<Longrightarrow>
   stat_id_loop i meta ((c, cols) # rest) (md, st, used) =
     stat_id_loop i meta rest (md', AList.update c sd (AList.update c [] st), used')"
  by simp

lemma stat_id_loop_used:
  "list_all (\<lambda>(c, cols). distinct (map fst cols)) d \<Longrightarrow>
   stat_id_loop i meta d (md, st, used) = (md', st', used') \<Longrightarrow>
   set used' = set used \<union>
     {s. s \<notin> set meta \<and> (\<exists>c cols col. (c, cols) \<in> set d \<and> map_of cols s = Some col \<and> i < length col)}"
proof (induction d arbitrary: md st used)
  case Nil
  then show ?case by simp
next
  case (Cons a d)
  obtain c cols where a: "a = (c, cols)" by (cases a)
  obtain md1 sd used1 where l: "stat_loop i meta cols (md, [], used) = (md1, sd, used1)"
    by (cases "stat_loop i meta cols (md, [], used)")
  have dc: "distinct (map fst cols)" and dd: "list_all (\<lambda>(c, cols). distinct (map fst cols)) d"
    using Cons.prems(1) a by auto
  have r: "stat_id_loop i meta d (md1, AList.update c sd (AList.update c [] st), used1) = (md', st', used')"
    using Cons.prems(2) a l by simp
  have u1: "set used1 = set used \<union>
      {s. s \<notin> set meta \<and> (\<exists>col. map_of cols s = Some col \<and> i < length col)}"
    by (rule stat_loop_used [OF dc l])
  show ?case
    unfolding Cons.IH [OF dd r] u1 a by auto
qed

lemma stat_id_loop_stats_other:
  "c \<notin> fst ` set d \<Longrightarrow> stat_id_loop i meta d (md, st, used) = (md', st', used') \<Longrightarrow>
   map_of st' c = map_of st c"
proof (induction d arbitrary: md st used)
  case Nil
  then show ?case by simp
next
  case (Cons a d)
  obtain c' cols where a: "a = (c', cols)" by (cases a)
  obtain md1 sd used1 where l: "stat_loop i meta cols (md, [], used) = (md1, sd, used1)"
    by (cases "stat_loop i meta cols (md, [], used)")
  have ne: "c \<noteq> c'" and ni: "c \<notin> fst ` set d"
    using Cons.prems(1) a by auto
  have r: "stat_id_loop i meta d (md1, AList.update c' sd (AList.update c' [] st), used1) = (md', st', used')"
    using Cons.prems(2) a l by simp
  show ?case
    using Cons.IH [OF ni r] ne by (simp add: update_conv')
qed

lemma stat_id_loop_stats_dom:
  "stat_id_loop i meta d (md, st, used) = (md', st', used') \<Longrightarrow> map_of st' c = Some sd \<Longrightarrow>
   c \<in> fst ` set d \<or> map_of st c = Some sd"
  using stat_id_loop_stats_other [of c d i meta md st used md' st' used'] by (cases "c \<in> fst ` set d") simp_all

lemma stat_id_loop_meta_absent:
  "list_all (\<lambda>(c, cols). distinct (map fst cols)) d \<Longrightarrow>
   \<forall>(c, cols)\<in>set d. map_of cols s = None \<Longrightarrow>
   stat_id_loop i meta d (md, st, used) = (md', st', used') \<Longrightarrow>
   map_of md' s = map_of md s"
proof (induction d arbitrary: md st used)
  case Nil
  then show ?case by simp
next
  case (Cons a d)
  obtain c cols where a: "a = (c, cols)" by (cases a)
  obtain md1 sd used1 where l: "stat_loop i meta cols (md, [], used) = (md1, sd, used1)"
    by (cases "stat_loop i meta cols (md, [], used)")
  have dc: "distinct (map fst cols)" and dd: "list_all (\<lambda>(c, cols). distinct (map fst cols)) d"
    using Cons.prems(1) a by auto
  have n: "map_of cols s = None" and nd: "\<forall>(c, cols)\<in>set d. map_of cols s = None"
    using Cons.prems(2) a by auto
  have r: "stat_id_loop i meta d (md1, AList.update c sd (AList.update c [] st), used1) = (md', st', used')"
    using Cons.prems(3) a l by simp
  have "map_of md1 s = map_of md s"
    using stat_loop_meta [OF dc l, of s] n by simp
  then show ?case
    using Cons.IH [OF dd nd r] by simp
qed

lemma wf_stats_split:
  assumes "wf_stats (pre @ (c, cols) # post)"
  shows "list_all (\<lambda>(c, cols). distinct (map fst cols)) pre"
    and "distinct (map fst cols)"
    and "list_all (\<lambda>(c, cols). distinct (map fst cols)) post"
    and "c \<notin> fst ` set post" and "c \<notin> fst ` set pre"
  using assms by (auto simp: wf_stats_def)

lemma at_category:
  assumes wf: "wf_stats (pre @ (c, cols) # post)"
    and p: "stat_id_loop i meta pre ([], [], []) = (md1, st1, used1)"
    and l: "stat_loop i meta cols (md1, [], used1) = (md2, sd, used2)"
    and f: "stat_id_loop i meta (pre @ (c, cols) # post) ([], [], []) = (md', st', used')"
  shows "map_of st' c = Some sd"
    and "(\<forall>(c', cols')\<in>set post. map_of cols' s = None) \<Longrightarrow> map_of md' s = map_of md2 s"
    and "set used1 =
      {s. s \<notin> set meta \<and> (\<exists>c cols col. (c, cols) \<in> set pre \<and> map_of cols s = Some col \<and> i < length col)}"
proof -
  have r: "stat_id_loop i meta post (md2, AList.update c sd (AList.update c [] st1), used2) = (md', st', used')"
    using f p l by (simp add: stat_id_loop_append)
  show "map_of st' c = Some sd"
    using stat_id_loop_stats_other [OF wf_stats_split(4) [OF wf] r] by (simp add: update_conv')
  show "map_of md' s = map_of md2 s" if "\<forall>(c', cols')\<in>set post. map_of cols' s = None"
    by (rule stat_id_loop_meta_absent [OF wf_stats_split(3) [OF wf] that r])
  show "set used1 =
      {s. s \<notin> set meta \<and> (\<exists>c cols col. (c, cols) \<in> set pre \<and> map_of cols s = Some col \<and> i < length col)}"
    using stat_id_loop_used [OF wf_stats_split(1) [OF wf] p] by simp
qed

lemma build_record_meta_last:
  assumes wf: "wf_stats d" and dec: "d = pre @ (c, cols) # post"
    and col: "map_of cols stat = Some col"
    and m: "stat \<in> set meta"
    and last: "\<forall>(c', cols')\<in>set post. map_of cols' stat = None"
  shows "map_of (meta_data (build_record meta d i)) stat = Some (cell i col)"
proof -
  obtain md1 st1 used1 where p: "stat_id_loop i meta pre ([], [], []) = (md1, st1, used1)"
    by (cases "stat_id_loop i meta pre ([], [], [])")
  obtain md2 sd used2 where l: "stat_loop i meta cols (md1, [], used1) = (md2, sd, used2)"
    by (cases "stat_loop i meta cols (md1, [], used1)")
  obtain md' st' used' where f: "stat_id_loop i meta (pre @ (c, cols) # post) ([], [], []) = (md', st', used')"
    by (cases "stat_id_loop i meta (pre @ (c, cols) # post) ([], [], [])")
  note wf' = wf [unfolded dec]
  have "map_of md' stat = map_of md2 stat"
    by (rule at_category(2) [OF wf' p l f last])
  also have "\<dots> = Some (cell i col)"
    using stat_loop_meta [OF wf_stats_split(2) [OF wf'] l, of stat] m col by simp
  finally show ?thesis
    by (simp add: build_record_def dec f)
qed

lemma build_record_stats_owner:
  assumes wf: "wf_stats d" and dec: "d = pre @ (c, cols) # post"
    and col: "map_of cols stat = Some col"
    and m: "stat \<notin> set meta"
    and len: "i < length col"
    and first: "\<forall>(c', cols')\<in>set pre. \<forall>col'. map_of cols' stat = Some col' \<longrightarrow> length col' \<le> i"
  shows "\<exists>sd. map_of (stats (build_record meta d i)) c = Some sd \<and> map_of sd stat = Some (col ! i)"
proof -
  obtain md1 st1 used1 where p: "stat_id_loop i meta pre ([], [], []) = (md1, st1, used1)"
    by (cases "stat_id_loop i meta pre ([], [], [])")
  obtain md2 sd used2 where l: "stat_loop i meta cols (md1, [], used1) = (md2, sd, used2)"
    by (cases "stat_loop i meta cols (md1, [], used1)")
  obtain md' st' used' where f: "stat_id_loop i meta (pre @ (c, cols) # post) ([], [], []) = (md', st', used')"
    by (cases "stat_id_loop i meta (pre @ (c, cols) # post) ([], [], [])")
  note wf' = wf [unfolded dec]
  have "stat \<notin> set used1"
  proof
    assume "stat \<in> set used1"
    then obtain c0 cols0 col0 where "(c0, cols0) \<in> set pre" "map_of cols0 stat = Some col0" "i < length col0"
      unfolding at_category(3) [OF wf' p l f] by blast
    then show False using first by fastforce
  qed
  then have "map_of sd stat = Some (col ! i)"
    using stat_loop_stats [OF wf_stats_split(2) [OF wf'] l, of stat] m col len by (simp add: cell_def)
  moreover have "map_of st' c = Some sd"
    by (rule at_category(1) [OF wf' p l f])
  ultimately show ?thesis
    by (simp add: build_record_def dec f)
qed

lemma build_record_stats_skipped:
  assumes wf: "wf_stats d" and dec: "d = pre @ (c, cols) # post"
    and col: "map_of cols stat = Some col"
    and m: "stat \<notin> set meta"
    and len: "i < length col"
    and later: "(c', cols') \<in> set post"
  shows "\<exists>sd'. map_of (stats (build_record meta d i)) c' = Some sd' \<and> map_of sd' stat = None"
proof -
  obtain p1 p2 where post: "post = p1 @ (c', cols') # p2"
    using later by (meson split_list)
  let ?pre = "pre @ (c, cols) # p1"
  have dec': "d = ?pre @ (c', cols') # p2"
    using dec post by simp
  obtain md1 st1 used1 where p: "stat_id_loop i meta ?pre ([], [], []) = (md1, st1, used1)"
    by (cases "stat_id_loop i meta ?pre ([], [], [])")
  obtain md2 sd used2 where l: "stat_loop i meta cols' (md1, [], used1) = (md2, sd, used2)"
    by (cases "stat_loop i meta cols' (md1, [], used1)")
  obtain md' st' used' where f: "stat_id_loop i meta (?pre @ (c', cols') # p2) ([], [], []) = (md', st', used')"
    by (cases "stat_id_loop i meta (?pre @ (c', cols') # p2) ([], [], [])")
  note wf' = wf [unfolded dec']
  have "(c, cols) \<in> set ?pre" by simp
  then have "stat \<in> set used1"
    unfolding at_category(3) [OF wf' p l f] using m col len by blast
  then have "map_of sd stat = None"
    using stat_loop_stats [OF wf_stats_split(2) [OF wf'] l, of stat] by simp
  moreover have "map_of st' c' = Some sd"
    by (rule at_category(1) [OF wf' p l f])
  ultimately show ?thesis
    using f by (simp add: build_record_def dec')
qed

lemma build_record_stats_no_meta:
  assumes wf: "wf_stats d"
    and m: "stat \<in> set meta"
    and sd: "map_of (stats (build_record meta d i)) c = Some sd"
  shows "map_of sd stat = None"
proof -
  obtain md' st' used' where f: "stat_id_loop i meta d ([], [], []) = (md', st', used')"
    by (cases "stat_id_loop i meta d ([], [], [])")
  have s': "map_of st' c = Some sd"
    using sd f by (simp add: build_record_def)
  have "c \<in> fst ` set d"
    using stat_id_loop_stats_dom [OF f s'] by simp
  then obtain cols where "(c, cols) \<in> set d" by auto
  then obtain pre post where dec: "d = pre @ (c, cols) # post"
    by (meson split_list)
  obtain md1 st1 used1 where p: "stat_id_loop i meta pre ([], [], []) = (md1, st1, used1)"
    by (cases "stat_id_loop i meta pre ([], [], [])")
  obtain md2 sd0 used2 where l: "stat_loop i meta cols (md1, [], used1) = (md2, sd0, used2)"
    by (cases "stat_loop i meta cols (md1, [], used1)")
  note wf' = wf [unfolded dec]
  have "map_of st' c = Some sd0"
    by (rule at_category(1) [OF wf' p l f [unfolded dec]])
  then have "sd = sd0" using s' by simp
  then show ?thesis
    using stat_loop_stats [OF wf_stats_split(2) [OF wf'] l, of stat] m by simp
qed

lemma orientation_rows:
  assumes "change_tms_dict_orientation meta d = Inr rs \<or> change_tss_dict_orientation meta d = Inr rs"
    and "i < length rs"
  shows "rs ! i = build_record meta d i"
  using assms
  by (auto simp: change_tms_dict_orientation_def change_tss_dict_orientation_def Let_def
      split: option.splits)

text \<open>
  C2 (as amended). In a record built by \<^verbatim>\<open>change_tms_dict_orientation\<close> or
  \<^verbatim>\<open>change_tss_dict_orientation\<close> for row \<open>i\<close>, a field of the meta-data list takes its value
  from the last category in iteration order that contains it (null when that category's
  column ends before row \<open>i\<close>), and no category's \<open>stats\<close> holds a meta-data field. A field
  outside the meta-data list belongs to the first category in iteration order whose column
  for it reaches row \<open>i\<close>: that category's \<open>stats\<close> holds the value and every later category's
  \<open>stats\<close> omits the field.
\<close>

theorem C2_reassembly_ownership:
  assumes "wf_stats d"
    and "change_tms_dict_orientation meta d = Inr rs \<or> change_tss_dict_orientation meta d = Inr rs"
    and "i < length rs"
    and "d = pre @ (stat_id, cols) # post"
    and "map_of cols stat = Some col"
  shows "(stat \<in> set meta \<longrightarrow>
           ((\<forall>(c', cols')\<in>set post. map_of cols' stat = None) \<longrightarrow>
              map_of (meta_data (rs ! i)) stat = Some (cell i col))
           \<and> (\<forall>c sd. map_of (stats (rs ! i)) c = Some sd \<longrightarrow> map_of sd stat = None))
       \<and> (stat \<notin> set meta \<and> i < length col
            \<and> (\<forall>(c', cols')\<in>set pre. \<forall>col'. map_of cols' stat = Some col' \<longrightarrow> length col' \<le> i) \<longrightarrow>
           (\<exists>sd. map_of (stats (rs ! i)) stat_id = Some sd \<and> map_of sd stat = Some (col ! i))
           \<and> (\<forall>(c', cols')\<in>set post.
                 \<exists>sd'. map_of (stats (rs ! i)) c' = Some sd' \<and> map_of sd' stat = None))"
proof -
  have r: "rs ! i = build_record meta d i"
    by (rule orientation_rows [OF assms(2,3)])
  have a: "map_of (meta_data (rs ! i)) stat = Some (cell i col)"
    if "stat \<in> set meta" "\<forall>(c', cols')\<in>set post. map_of cols' stat = None"
    unfolding r by (rule build_record_meta_last [OF assms(1,4,5) that])
  have b: "map_of sd stat = None"
    if "stat \<in> set meta" "map_of (stats (rs ! i)) c = Some sd" for c sd
    by (rule build_record_stats_no_meta [OF assms(1) that(1) that(2) [unfolded r]])
  have c: "\<exists>sd. map_of (stats (rs ! i)) stat_id = Some sd \<and> map_of sd stat = Some (col ! i)"
    if "stat \<notin> set meta" "i < length col"
      "\<forall>(c', cols')\<in>set pre. \<forall>col'. map_of cols' stat = Some col' \<longrightarrow> length col' \<le> i"
    unfolding r by (rule build_record_stats_owner [OF assms(1,4,5) that])
  have e: "\<exists>sd'. map_of (stats (rs ! i)) c' = Some sd' \<and> map_of sd' stat = None"
    if "stat \<notin> set meta" "i < length col" "(c', cols') \<in> set post" for c' cols'
    unfolding r by (rule build_record_stats_skipped [OF assms(1,4,5) that])
  show ?thesis
    using a b c e by blast
qed

theorem C2_reassembly_witness:
  "\<exists>rs. change_tms_dict_orientation [''match_id'', ''date''] two_categories = Inr rs
      \<and> map_of (meta_data (rs ! 0)) ''date'' = Some (PyStr ''2024-02-02'')
      \<and> (\<exists>sd. map_of (stats (rs ! 0)) ''schedule'' = Some sd \<and> map_of sd ''gf'' = Some (PyInt 2))
      \<and> (\<exists>sd'. map_of (stats (rs ! 0)) ''shooting'' = Some sd' \<and> map_of sd' ''gf'' = None)"
proof -
  define meta where "meta = [''match_id'', ''date'']"
  define sched where "sched = [(''match_id'', [PyStr ''m1'']), (''date'', [PyStr ''2024-01-01'']),
                      (''gf'', [PyInt 2])]"
  define shoot where "shoot = [(''date'', [PyStr ''2024-02-02'']), (''gf'', [PyInt 3]), (''sh'', [PyInt 9])]"
  define rs where "rs = [build_record meta two_categories 0]"
  have tc: "two_categories = [(''schedule'', sched), (''shooting'', shoot)]"
    by (simp add: two_categories_def sched_def shoot_def)
  have wf: "wf_stats two_categories"
    by (simp add: wf_stats_def tc sched_def shoot_def)
  have "map_of two_categories ''schedule'' = Some sched"
    and "map_of sched ''match_id'' = Some [PyStr ''m1'']"
    by (simp_all add: tc sched_def)
  then have run: "change_tms_dict_orientation meta two_categories = Inr rs"
    by (simp add: change_tms_dict_orientation_def rs_def)
  then have run': "change_tms_dict_orientation meta two_categories = Inr rs
      \<or> change_tss_dict_orientation meta two_categories = Inr rs"
    by simp
  have i: "0 < length rs" by (simp add: rs_def)
  have dec1: "two_categories = [(''schedule'', sched)] @ (''shooting'', shoot) # []"
    and dec2: "two_categories = [] @ (''schedule'', sched) # [(''shooting'', shoot)]"
    by (simp_all add: tc)
  have date: "map_of shoot ''date'' = Some [PyStr ''2024-02-02'']"
    and gf: "map_of sched ''gf'' = Some [PyInt 2]"
    by (simp_all add: shoot_def sched_def)
  have m: "map_of (meta_data (rs ! 0)) ''date'' = Some (PyStr ''2024-02-02'')"
    using C2_reassembly_ownership [OF wf run' i dec1 date, THEN conjunct1]
    by (simp add: meta_def cell_def)
  have s: "(\<exists>sd. map_of (stats (rs ! 0)) ''schedule'' = Some sd \<and> map_of sd ''gf'' = Some (PyInt 2))
      \<and> (\<exists>sd'. map_of (stats (rs ! 0)) ''shooting'' = Some sd' \<and> map_of sd' ''gf'' = None)"
    using C2_reassembly_ownership [OF wf run' i dec2 gf, THEN conjunct2]
    by (simp add: meta_def)
  show ?thesis
    using run m s unfolding meta_def by blast
qed

text \<open>
  Two categories that both hold the meta-data field \<open>date\<close> (respectively \<open>squad\<close>) with
  different values: the record takes the value of the second category, not of the first.
\<close>

theorem C2_meta_last_wins_counterexample:
  "change_tms_dict_orientation [''match_id'', ''date''] two_categories =
     Inr [\<lparr>meta_data = [(''match_id'', PyStr ''m1''), (''date'', PyStr ''2024-02-02'')],
           stats = [(''schedule'', [(''gf'', PyInt 2)]), (''shooting'', [(''sh'', PyInt 9)])]\<rparr>]
   \<and> map_of (snd (hd two_categories)) ''date'' = Some [PyStr ''2024-01-01'']
   \<and> change_tss_dict_orientation [''team_id'', ''squad''] two_season_categories =
     Inr [\<lparr>meta_data = [(''team_id'', PyStr ''t1''), (''squad'', PyStr ''Arsenal FC'')],
           stats = [(''stats'', [(''gls'', PyInt 5)]), (''shooting'', [(''sh'', PyInt 9)])]\<rparr>]
   \<and> map_of (snd (hd two_season_categories)) ''squad'' = Some [PyStr ''Arsenal'']"
  by (simp add: change_tms_dict_orientation_def change_tss_dict_orientation_def build_record_def
      two_categories_def two_season_categories_def)

text \<open>
  A first category whose column ends before the row: it holds null for the field, and the
  next category that has the row owns the field.
\<close>

lemma short_column_passes_ownership:
  "change_tms_dict_orientation [''match_id'', ''date''] short_first =
     Inr [\<lparr>meta_data = [(''match_id'', PyStr ''m1''), (''date'', PyStr ''c'')],
           stats = [(''schedule'', [(''gf'', PyInt 2)]), (''shooting'', [(''sh'', PyInt 9)])]\<rparr>,
          \<lparr>meta_data = [(''match_id'', PyStr ''m2''), (''date'', PyNone)],
           stats = [(''schedule'', [(''gf'', PyNone)]),
                    (''shooting'', [(''gf'', PyInt 4), (''sh'', PyNone)])]\<rparr>]"
  by (simp add: change_tms_dict_orientation_def build_record_def short_first_def upt_rec numeral_2_eq_2)

end
